(* ===== verification/Go_Prelude.thy ===== *)
theory Go_Prelude
  imports Main "HOL-Library.Word"
begin

text \<open>
  Shared vocabulary of the development: the Go types the sources use, Go's error and panic
  outcomes, byte slices and their big-endian readings, the methods of \<^verbatim>\<open>math/big.Int\<close>
  and of package \<^verbatim>\<open>sort\<close> that the sources call, and the generic lemmas on them.

  Conventions.
  \<^item> \<^verbatim>\<open>uint64\<close> is \<open>64 word\<close> (arithmetic wraps), \<^verbatim>\<open>byte\<close> is
    \<open>8 word\<close>, \<^verbatim>\<open>common.Address\<close> is \<open>160 word\<close>, \<^verbatim>\<open>common.Hash\<close> is
    \<open>256 word\<close>; the byte arrays behind the last two are read big-endian.
  \<^item> \<^verbatim>\<open>*big.Int\<close> is \<open>int\<close> where the code never passes nil and \<open>int option\<close>
    where it tests for nil.
  \<^item> A byte slice is a list of bytes; where the code distinguishes nil from an empty slice it is
    an option.
  \<^item> A function that returns an \<^verbatim>\<open>error\<close> has a result in \<open>go_error + 'a\<close>; a run-time
    panic is an error value of its own.
\<close>

unbundle bit_operations_syntax

named_theorems go_defs \<open>definitions of small helper operations, unfolded together\<close>
named_theorems be_simps \<open>big-endian readings of byte slices\<close>

type_synonym byte = "8 word"
type_synonym bytes = "byte list"
type_synonym uint64 = "64 word"
type_synonym address = "160 word"
type_synonym hash = "256 word"

text \<open>The error interface: a returned error with its text, or a run-time panic.\<close>

datatype go_error = Err string | Panic string

type_synonym 'a result = "go_error + 'a"

fun res_bind :: "'a result \<Rightarrow> ('a \<Rightarrow> 'b result) \<Rightarrow> 'b result" where
  "res_bind (Inl e) f = Inl e"
| "res_bind (Inr x) f = f x"

fun is_ok :: "'a result \<Rightarrow> bool" where
  "is_ok (Inl e) = False"
| "is_ok (Inr x) = True"

subsection \<open>Byte slices and big-endian integers\<close>

text \<open>\<^verbatim>\<open>new(big.Int).SetBytes(b)\<close>.\<close>

definition be_nat :: "bytes \<Rightarrow> nat" where
  "be_nat bs = foldl (\<lambda>a b. a * 256 + unat b) 0 bs"

text \<open>\<^verbatim>\<open>x.Bytes()\<close>: the absolute value, big-endian, without leading zero bytes.\<close>

fun nat_be :: "nat \<Rightarrow> bytes" where
  "nat_be n = (if n = 0 then [] else nat_be (n div 256) @ [word_of_nat (n mod 256)])"

declare nat_be.simps [simp del]

text \<open>The fixed-width big-endian bytes of a value (\<^verbatim>\<open>[20]byte\<close>, \<^verbatim>\<open>[32]byte\<close>).\<close>

fun be_fixed :: "nat \<Rightarrow> nat \<Rightarrow> bytes" where
  "be_fixed 0 n = []"
| "be_fixed (Suc k) n = be_fixed k (n div 256) @ [word_of_nat (n mod 256)]"

text \<open>\<^verbatim>\<open>b[i:j]\<close> for in-range bounds.\<close>

definition slice :: "nat \<Rightarrow> nat \<Rightarrow> 'a list \<Rightarrow> 'a list" where
  "slice i j xs = take (j - i) (drop i xs)"

subsection \<open>Methods of big.Int\<close>

text \<open>\<^verbatim>\<open>x.Uint64()\<close>: the low 64 bits (two's complement for a negative value).\<close>

definition big_Uint64 :: "int \<Rightarrow> uint64" where
  "big_Uint64 x = word_of_int x"

text \<open>\<^verbatim>\<open>big.NewInt(int64(w))\<close>: the conversion reads the word as signed.\<close>

definition big_of_int64 :: "uint64 \<Rightarrow> int" where
  "big_of_int64 w = sint w"

text \<open>\<^verbatim>\<open>new(big.Int).SetUint64(w)\<close>.\<close>

definition big_of_uint64 :: "uint64 \<Rightarrow> int" where
  "big_of_uint64 w = uint w"

text \<open>\<^verbatim>\<open>z.Div(x, y)\<close> is Euclidean division; a zero divisor panics.\<close>

definition big_Div :: "int \<Rightarrow> int \<Rightarrow> int result" where
  "big_Div x y =
     (if y = 0 then Inl (Panic ''division by zero'')
      else if 0 < y then Inr (x div y) else Inr (- (x div (- y))))"

text \<open>\<^verbatim>\<open>z.Mod(x, y)\<close> is the Euclidean modulus; a zero divisor panics.\<close>

definition big_Mod :: "int \<Rightarrow> int \<Rightarrow> int result" where
  "big_Mod x y =
     (if y = 0 then Inl (Panic ''division by zero'') else Inr (x mod \<bar>y\<bar>))"

definition big_Bytes :: "int \<Rightarrow> bytes" where
  "big_Bytes x = nat_be (nat \<bar>x\<bar>)"

definition big_SetBytes :: "bytes \<Rightarrow> int" where
  "big_SetBytes bs = int (be_nat bs)"

subsection \<open>Package sort\<close>

text \<open>
  \<^verbatim>\<open>sort.Search(n, f)\<close>, the loop of the Go library:
  \<^verbatim>\<open>i, j := 0, n; for i < j { h := i + (j-i)/2; if !f(h) { i = h + 1 } else { j = h } }; return i\<close>.
\<close>

function search_loop :: "(nat \<Rightarrow> bool) \<Rightarrow> nat \<Rightarrow> nat \<Rightarrow> nat" where
  "search_loop f i j =
     (if i < j then
        (let h = i + (j - i) div 2 in
         if \<not> f h then search_loop f (h + 1) j else search_loop f i h)
      else i)"
  by pat_completeness auto
termination
  by (relation "measure (\<lambda>(f, i, j). j - i)") (auto simp: Let_def)

declare search_loop.simps [simp del]

definition sort_Search :: "nat \<Rightarrow> (nat \<Rightarrow> bool) \<Rightarrow> nat" where
  "sort_Search n f = search_loop f 0 n"

section \<open>Lemmas\<close>

subsection \<open>Results\<close>

lemma res_bind_Inr_iff [simp]:
  "res_bind m f = Inr y \<longleftrightarrow> (\<exists>x. m = Inr x \<and> f x = Inr y)"
  by (cases m) auto

lemma is_ok_iff: "is_ok m \<longleftrightarrow> (\<exists>x. m = Inr x)"
  by (cases m) auto

subsection \<open>Big-endian readings\<close>

lemma be_nat_Nil [simp, be_simps]: "be_nat [] = 0"
  by (simp add: be_nat_def)

lemma be_nat_snoc [simp, be_simps]: "be_nat (bs @ [b]) = be_nat bs * 256 + unat b"
  by (simp add: be_nat_def)

lemma be_nat_append: "be_nat (xs @ ys) = be_nat xs * 256 ^ length ys + be_nat ys"
proof (induction ys rule: rev_induct)
  case (snoc y ys)
  have "be_nat (xs @ ys @ [y]) = be_nat (xs @ ys) * 256 + unat y"
    using be_nat_snoc [of "xs @ ys" y] by simp
  with snoc.IH show ?case by (simp add: algebra_simps)
qed simp

lemma be_nat_Cons [be_simps]: "be_nat (b # bs) = unat b * 256 ^ length bs + be_nat bs"
  using be_nat_append [of "[b]" bs] by (simp add: be_nat_def)

lemma unat_byte_less [simp]: "unat (b :: byte) < 256"
  using unsigned_less [of b] by (simp add: order.strict_trans2)

lemma be_nat_less: "be_nat bs < 256 ^ length bs"
proof (induction bs rule: rev_induct)
  case (snoc b bs)
  have "be_nat bs + 1 \<le> 256 ^ length bs" using snoc.IH by simp
  then have "(be_nat bs + 1) * 256 \<le> 256 ^ length bs * 256" by (rule mult_le_mono1)
  moreover have "unat b < 256" by (rule unat_byte_less)
  ultimately show ?case by (simp add: algebra_simps del: unat_byte_less)
qed simp

lemma nat_be_0 [simp]: "nat_be 0 = []"
  by (simp add: nat_be.simps)

lemma nat_be_eq_Nil_iff [simp]: "nat_be n = [] \<longleftrightarrow> n = 0"
  by (subst nat_be.simps) simp

lemma unat_word_of_nat_byte [simp]: "unat (word_of_nat (n mod 256) :: byte) = n mod 256"
  by (simp add: unat_of_nat)

lemma be_nat_nat_be [simp]: "be_nat (nat_be n) = n"
proof (induction n rule: nat_be.induct)
  case (1 n)
  show ?case
  proof (cases "n = 0")
    case False
    then have "nat_be n = nat_be (n div 256) @ [word_of_nat (n mod 256)]"
      by (subst nat_be.simps) simp
    with 1 False show ?thesis by simp
  qed simp
qed

lemma nat_be_snoc: "n \<noteq> 0 \<or> b \<noteq> 0 \<Longrightarrow> nat_be (n * 256 + unat b) = nat_be n @ [b]"
proof -
  assume "n \<noteq> 0 \<or> b \<noteq> 0"
  then have nz: "n * 256 + unat b \<noteq> 0" by (auto simp: unat_eq_0)
  have "(n * 256 + unat b) div 256 = n" and "(n * 256 + unat b) mod 256 = unat b"
    by (simp_all add: div_mult_self3)
  with nz show ?thesis by (subst nat_be.simps) simp
qed

text \<open>Reading a slice without a leading zero and printing it again is the identity.\<close>

lemma nat_be_be_nat: "bs = [] \<or> hd bs \<noteq> 0 \<Longrightarrow> nat_be (be_nat bs) = bs"
proof (induction bs rule: rev_induct)
  case (snoc b bs)
  show ?case
  proof (cases "bs = []")
    case True
    with snoc.prems show ?thesis using nat_be_snoc [of 0 b] be_nat_snoc [of "[]" b] by simp
  next
    case False
    with snoc.prems have h: "hd bs \<noteq> 0" by simp
    with False snoc.IH have IH: "nat_be (be_nat bs) = bs" by simp
    with False have "be_nat bs \<noteq> 0" by (metis nat_be_0)
    with IH show ?thesis by (simp add: nat_be_snoc)
  qed
qed simp

lemma hd_nat_be: "n \<noteq> 0 \<Longrightarrow> hd (nat_be n) \<noteq> 0"
proof (induction n rule: nat_be.induct)
  case (1 n)
  show ?case
  proof (cases "n div 256 = 0")
    case True
    with 1(2) have "n < 256" and "nat_be n = [word_of_nat n]"
      by (simp_all add: nat_be.simps [of n])
    with 1(2) show ?thesis by (simp add: word_of_nat_eq_0_iff take_bit_nat_def dvd_def) auto
  next
    case False
    with 1 have "hd (nat_be (n div 256)) \<noteq> 0" by simp
    with False 1(2) show ?thesis by (subst nat_be.simps) (simp add: hd_append)
  qed
qed

lemma length_nat_be_le: "length (nat_be n) \<le> k \<longleftrightarrow> n < 256 ^ k"
proof (induction k arbitrary: n)
  case 0
  show ?case by (simp add: less_Suc_eq_0_disj)
next
  case (Suc k)
  show ?case
  proof (cases "n = 0")
    case False
    then have "length (nat_be n) = Suc (length (nat_be (n div 256)))"
      by (subst nat_be.simps) simp
    then have "length (nat_be n) \<le> Suc k \<longleftrightarrow> n div 256 < 256 ^ k"
      using Suc.IH by simp
    then show ?thesis by (simp add: div_less_iff_less_mult mult.commute)
  qed simp
qed

lemma length_be_fixed [simp]: "length (be_fixed k n) = k"
  by (induction k arbitrary: n) auto

lemma be_nat_be_fixed: "be_nat (be_fixed k n) = n mod 256 ^ k"
proof (induction k arbitrary: n)
  case (Suc k)
  have "be_nat (be_fixed (Suc k) n) = (n div 256) mod 256 ^ k * 256 + n mod 256"
    using Suc.IH by simp
  also have "\<dots> = n mod (256 * 256 ^ k)"
    by (simp add: mod_mult2_eq algebra_simps)
  finally show ?case by simp
qed simp

lemma be_fixed_be_nat: "be_fixed (length bs) (be_nat bs) = bs"
proof (induction bs rule: rev_induct)
  case (snoc b bs)
  have "(be_nat bs * 256 + unat b) div 256 = be_nat bs"
    and "(be_nat bs * 256 + unat b) mod 256 = unat b"
    by (simp_all add: div_mult_self3)
  with snoc.IH show ?case by simp
qed simp

lemma be_nat_inj: "length xs = length ys \<Longrightarrow> be_nat xs = be_nat ys \<Longrightarrow> xs = ys"
  by (metis be_fixed_be_nat)

lemma length_slice [simp]: "j \<le> length xs \<Longrightarrow> length (slice i j xs) = j - i"
  by (simp add: slice_def)

lemma nat_be_fixed: "256 ^ k \<le> n \<Longrightarrow> n < 256 ^ Suc k \<Longrightarrow> nat_be n = be_fixed (Suc k) n"
proof (induction k arbitrary: n)
  case 0
  then show ?case by (subst nat_be.simps) simp
next
  case (Suc k)
  then have "256 ^ k \<le> n div 256" and "n div 256 < 256 ^ Suc k"
    by (simp_all add: less_eq_div_iff_mult_less_eq div_less_iff_less_mult mult.commute)
  then have "nat_be (n div 256) = be_fixed (Suc k) (n div 256)" by (rule Suc.IH)
  moreover have "n \<noteq> 0" using Suc.prems by auto
  ultimately show ?case by (subst nat_be.simps) simp
qed

lemma nat_be_small: "n \<noteq> 0 \<Longrightarrow> n < 256 \<Longrightarrow> nat_be n = [word_of_nat n]"
  using nat_be_fixed [of 0 n] by simp

lemma be_fixed_numeral:
  "be_fixed (numeral v) n = be_fixed (pred_numeral v) (n div 256) @ [word_of_nat (n mod 256)]"
  by (simp only: numeral_eq_Suc [of v] be_fixed.simps)

lemma length_nat_be_step: "n \<noteq> 0 \<Longrightarrow> length (nat_be n) = Suc (length (nat_be (n div 256)))"
  by (subst nat_be.simps) simp

subsection \<open>Words\<close>

lemma word64_less_2p: "m < 64 \<Longrightarrow> (i::uint64) < 2 ^ m \<longleftrightarrow> unat i < 2 ^ m"
proof -
  assume "m < 64"
  then have "i < 2 ^ m \<longleftrightarrow> uint i < 2 ^ m" by (simp add: word_2p_lem word_size)
  also have "\<dots> \<longleftrightarrow> int (unat i) < int (2 ^ m)" by simp
  also have "\<dots> \<longleftrightarrow> unat i < 2 ^ m" by (rule of_nat_less_iff)
  finally show ?thesis .
qed

lemma unat64_less: "unat (i::uint64) < 2 ^ 64"
  using unsigned_less [of i] by simp

lemma eq_word_of_natI: "unat w = n \<Longrightarrow> w = word_of_nat n"
  by auto


subsection \<open>Methods of big.Int\<close>

lemma big_SetBytes_Bytes [simp]: "0 \<le> x \<Longrightarrow> big_SetBytes (big_Bytes x) = x"
  by (simp add: big_SetBytes_def big_Bytes_def)

lemma big_SetBytes_nonneg [simp]: "0 \<le> big_SetBytes bs"
  by (simp add: big_SetBytes_def)

lemma big_Uint64_id [simp]: "0 \<le> x \<Longrightarrow> x < 2 ^ 64 \<Longrightarrow> uint (big_Uint64 x) = x"
  by (simp add: big_Uint64_def uint_word_of_int)

lemma big_of_uint64_nonneg [simp]: "0 \<le> big_of_uint64 w"
  by (simp add: big_of_uint64_def)

lemma big_Div_pos [simp]: "0 < y \<Longrightarrow> big_Div x y = Inr (x div y)"
  by (simp add: big_Div_def)

lemma big_Mod_pos [simp]: "0 < y \<Longrightarrow> big_Mod x y = Inr (x mod y)"
  by (simp add: big_Mod_def)

subsection \<open>Binary search\<close>

text \<open>
  For a predicate that is false below some point and true from there on, the loop returns that
  point; this is the contract of \<^verbatim>\<open>sort.Search\<close>.
\<close>

lemma search_loop_spec:
  assumes "i \<le> m" and "m \<le> j" and "\<And>k. i \<le> k \<Longrightarrow> k < j \<Longrightarrow> f k \<longleftrightarrow> m \<le> k"
  shows "search_loop f i j = m"
  using assms
proof (induction f i j rule: search_loop.induct)
  case (1 f i j)
  show ?case
  proof (cases "i < j")
    case False
    with 1(3,4) show ?thesis by (subst search_loop.simps) simp
  next
    case True
    define h where "h = i + (j - i) div 2"
    have h: "i \<le> h" "h < j" using True by (auto simp: h_def)
    show ?thesis
    proof (cases "f h")
      case True
      with h 1(5) have "m \<le> h" by blast
      with True h 1(2) [OF \<open>i < j\<close> h_def] 1(3,5) have "search_loop f i h = m" by simp
      with True \<open>i < j\<close> show ?thesis
        by (subst search_loop.simps) (simp add: h_def Let_def)
    next
      case False
      with h 1(5) have "h < m" by (meson not_le)
      with False h 1(1) [OF \<open>i < j\<close> h_def] 1(4,5) have "search_loop f (h + 1) j = m" by simp
      with False \<open>i < j\<close> show ?thesis
        by (subst search_loop.simps) (simp add: h_def Let_def)
    qed
  qed
qed

lemma sort_Search_spec:
  assumes "m \<le> n" and "\<And>k. k < n \<Longrightarrow> f k \<longleftrightarrow> m \<le> k"
  shows "sort_Search n f = m"
  unfolding sort_Search_def by (rule search_loop_spec) (use assms in auto)

lemma search_loop_le: "i \<le> j \<Longrightarrow> search_loop f i j \<le> j"
proof (induction f i j rule: search_loop.induct)
  case (1 f i j)
  show ?case
  proof (cases "i < j")
    case True
    let ?h = "i + (j - i) div 2"
    have "?h < j" using True by simp
    then show ?thesis
      using 1 True by (subst search_loop.simps) (auto simp: Let_def intro: le_trans)
  qed (use 1 in \<open>subst search_loop.simps, simp\<close>)
qed

lemma sort_Search_le: "sort_Search n f \<le> n"
  by (simp add: sort_Search_def search_loop_le)

end
