(* ===== verification/Rlp_Encode.thy ===== *)
theory Rlp_Encode
  imports Go_Prelude
begin

text \<open>
  Package \<^verbatim>\<open>rlp\<close>, the writing side: \<^verbatim>\<open>src/rlp/encode.go\<close> and the splitting
  functions of \<^verbatim>\<open>src/rlp/raw.go\<close>.

  The encoder writes string data and list headers into two separate buffers and merges them at the
  end (\<open>encbuf\<close>, \<open>toBytes\<close>).  The Go writers are chosen by reflection on the type of the
  value; \<open>rlp_val\<close> has one constructor per writer.  \<open>rlp_enc\<close> is the reference encoding
  of the RLP specification; the main lemmas say that the buffered encoder computes it and that the
  splitting functions invert it.
\<close>

subsection \<open>Headers and integers\<close>

definition byte_of :: "uint64 \<Rightarrow> byte" where
  "byte_of i = ucast i"

text \<open>\<^verbatim>\<open>putint\<close>: the bytes it leaves at the beginning of the buffer.\<close>

definition putint :: "uint64 \<Rightarrow> bytes" where
  "putint i =
     (if i < 2 ^ 8 then [byte_of i]
      else if i < 2 ^ 16 then [byte_of (drop_bit 8 i), byte_of i]
      else if i < 2 ^ 24 then [byte_of (drop_bit 16 i), byte_of (drop_bit 8 i), byte_of i]
      else if i < 2 ^ 32 then
        [byte_of (drop_bit 24 i), byte_of (drop_bit 16 i), byte_of (drop_bit 8 i), byte_of i]
      else if i < 2 ^ 40 then
        [byte_of (drop_bit 32 i), byte_of (drop_bit 24 i), byte_of (drop_bit 16 i),
         byte_of (drop_bit 8 i), byte_of i]
      else if i < 2 ^ 48 then
        [byte_of (drop_bit 40 i), byte_of (drop_bit 32 i), byte_of (drop_bit 24 i),
         byte_of (drop_bit 16 i), byte_of (drop_bit 8 i), byte_of i]
      else if i < 2 ^ 56 then
        [byte_of (drop_bit 48 i), byte_of (drop_bit 40 i), byte_of (drop_bit 32 i),
         byte_of (drop_bit 24 i), byte_of (drop_bit 16 i), byte_of (drop_bit 8 i), byte_of i]
      else
        [byte_of (drop_bit 56 i), byte_of (drop_bit 48 i), byte_of (drop_bit 40 i),
         byte_of (drop_bit 32 i), byte_of (drop_bit 24 i), byte_of (drop_bit 16 i),
         byte_of (drop_bit 8 i), byte_of i])"

text \<open>\<^verbatim>\<open>intsize\<close>: the loop shifts the value down until nothing is left.\<close>

function intsize_loop :: "nat \<Rightarrow> uint64 \<Rightarrow> nat" where
  "intsize_loop sz i =
     (let i' = drop_bit 8 i in if i' = 0 then sz else intsize_loop (sz + 1) i')"
  by pat_completeness auto
termination
proof (relation "measure (\<lambda>(sz, i). unat i)", goal_cases)
  case (2 sz i i')
  have "unat i' = unat i div 256"
    unfolding 2(1) by (simp add: drop_bit_eq_div unat_div)
  moreover have "unat i' \<noteq> 0" using 2(2) by (simp add: unat_eq_0)
  ultimately show ?case by simp
qed simp

declare intsize_loop.simps [simp del]

definition intsize :: "uint64 \<Rightarrow> nat" where
  "intsize i = intsize_loop 1 i"

definition headsize :: "uint64 \<Rightarrow> nat" where
  "headsize sz = (if sz < 56 then 1 else 1 + intsize sz)"

definition puthead :: "byte \<Rightarrow> byte \<Rightarrow> uint64 \<Rightarrow> bytes" where
  "puthead smalltag largetag sz =
     (if sz < 56 then [smalltag + byte_of sz]
      else (let b = putint sz in (largetag + word_of_nat (length b)) # b))"

subsection \<open>The encoder buffer\<close>

text \<open>A list head is the pair of the offset in the string data and the size field.\<close>

record encbuf =
  str :: bytes
  lheads :: "(nat \<times> nat) list"
  lhsize :: nat

definition encbuf_reset :: encbuf where
  "encbuf_reset = \<lparr>str = [], lheads = [], lhsize = 0\<rparr>"

definition listhead_encode :: "nat \<times> nat \<Rightarrow> bytes" where
  "listhead_encode head = puthead 0xC0 0xF7 (word_of_nat (snd head))"

definition put_str :: "bytes \<Rightarrow> encbuf \<Rightarrow> encbuf" where
  "put_str b w = w\<lparr>str := str w @ b\<rparr>"

definition encodeStringHeader :: "nat \<Rightarrow> encbuf \<Rightarrow> encbuf" where
  "encodeStringHeader sz w =
     (if sz < 56 then put_str [0x80 + word_of_nat sz] w
      else (let b = putint (word_of_nat sz) in
            put_str ((0xB7 + word_of_nat (length b)) # b) w))"

definition encodeString :: "bytes \<Rightarrow> encbuf \<Rightarrow> encbuf" where
  "encodeString b w =
     (if length b = 1 \<and> hd b \<le> 0x7F then put_str [hd b] w
      else put_str b (encodeStringHeader (length b) w))"

definition encbuf_size :: "encbuf \<Rightarrow> nat" where
  "encbuf_size w = length (str w) + lhsize w"

text \<open>\<^verbatim>\<open>list\<close> returns a pointer to the new head: here its index in the list of heads.\<close>

definition encbuf_list :: "encbuf \<Rightarrow> nat \<times> encbuf" where
  "encbuf_list w =
     (length (lheads w), w\<lparr>lheads := lheads w @ [(length (str w), lhsize w)]\<rparr>)"

definition encbuf_listEnd :: "nat \<Rightarrow> encbuf \<Rightarrow> encbuf" where
  "encbuf_listEnd lh w =
     (let (off, sz0) = lheads w ! lh; sz = encbuf_size w - off - sz0 in
      w\<lparr>lheads := (lheads w)[lh := (off, sz)],
        lhsize := lhsize w + (if sz < 56 then 1 else 1 + intsize (word_of_nat sz))\<rparr>)"

text \<open>The merge loop of \<^verbatim>\<open>toBytes\<close> and \<^verbatim>\<open>toWriter\<close>.\<close>

fun merge_heads :: "bytes \<Rightarrow> nat \<Rightarrow> (nat \<times> nat) list \<Rightarrow> bytes" where
  "merge_heads s strpos [] = drop strpos s"
| "merge_heads s strpos (head # heads) =
     (let piece = slice strpos (fst head) s in
      piece @ listhead_encode head @ merge_heads s (strpos + length piece) heads)"

definition toBytes :: "encbuf \<Rightarrow> bytes" where
  "toBytes w = merge_heads (str w) 0 (lheads w)"

subsection \<open>The writers\<close>

text \<open>
  \<open>RUint\<close> is any unsigned integer kind, \<open>RBig\<close> a \<^verbatim>\<open>big.Int\<close> (\<open>None\<close> for
  a nil pointer), \<open>RBytes\<close> a byte slice, a byte array or a string, \<open>RList\<close> a slice of
  other values or a struct.
\<close>

datatype rlp_val =
  RBool bool | RUint uint64 | RBig "int option" | RBytes bytes | RList "rlp_val list"

definition writeUint :: "uint64 \<Rightarrow> encbuf \<Rightarrow> encbuf" where
  "writeUint i w =
     (if i = 0 then put_str [0x80] w
      else if i < 128 then put_str [byte_of i] w
      else (let b = putint i in put_str ((0x80 + word_of_nat (length b)) # b) w))"

definition writeBool :: "bool \<Rightarrow> encbuf \<Rightarrow> encbuf" where
  "writeBool b w = (if b then put_str [0x01] w else put_str [0x80] w)"

definition writeBigInt :: "int \<Rightarrow> encbuf \<Rightarrow> encbuf result" where
  "writeBigInt i w =
     (if i < 0 then Inl (Err ''rlp: cannot encode negative *big.Int'')
      else if i = 0 then Inr (put_str [0x80] w)
      else Inr (encodeString (big_Bytes i) w))"

definition writeBigIntPtr :: "int option \<Rightarrow> encbuf \<Rightarrow> encbuf result" where
  "writeBigIntPtr ptr w =
     (case ptr of None \<Rightarrow> Inr (put_str [0x80] w) | Some i \<Rightarrow> writeBigInt i w)"

fun write_val :: "rlp_val \<Rightarrow> encbuf \<Rightarrow> encbuf result"
  and write_vals :: "rlp_val list \<Rightarrow> encbuf \<Rightarrow> encbuf result" where
  "write_val (RBool b) w = Inr (writeBool b w)"
| "write_val (RUint i) w = Inr (writeUint i w)"
| "write_val (RBig p) w = writeBigIntPtr p w"
| "write_val (RBytes b) w = Inr (encodeString b w)"
| "write_val (RList vs) w =
     (let (lh, w1) = encbuf_list w in
      case write_vals vs w1 of Inl e \<Rightarrow> Inl e | Inr w2 \<Rightarrow> Inr (encbuf_listEnd lh w2))"
| "write_vals [] w = Inr w"
| "write_vals (v # vs) w = (case write_val v w of Inl e \<Rightarrow> Inl e | Inr w1 \<Rightarrow> write_vals vs w1)"

definition EncodeToBytes :: "rlp_val \<Rightarrow> bytes result" where
  "EncodeToBytes v =
     (case write_val v encbuf_reset of Inl e \<Rightarrow> Inl e | Inr eb \<Rightarrow> Inr (toBytes eb))"

subsection \<open>Splitting encoded data (raw.go)\<close>

datatype rlp_kind = KByte | KString | KList

abbreviation "ErrUnexpectedEOF \<equiv> Err ''unexpected EOF''"
abbreviation "ErrCanonSize \<equiv> Err ''rlp: non-canonical size information''"
abbreviation "ErrCanonInt \<equiv> Err ''rlp: non-canonical integer format''"
abbreviation "ErrValueTooLarge \<equiv> Err ''rlp: value size exceeds available input length''"
abbreviation "ErrElemTooLarge \<equiv> Err ''rlp: element is larger than containing list''"
abbreviation "ErrExpectedString \<equiv> Err ''rlp: expected String or Byte''"
abbreviation "ErrExpectedList \<equiv> Err ''rlp: expected List''"

abbreviation u64 :: "byte \<Rightarrow> uint64" where
  "u64 b \<equiv> ucast b"

text \<open>The switch of \<^verbatim>\<open>readSize\<close>; the size is 0 for a length outside 1 to 8.\<close>

definition readSize_val :: "bytes \<Rightarrow> nat \<Rightarrow> uint64" where
  "readSize_val b slen =
     (if slen = 1 then u64 (b!0)
      else if slen = 2 then push_bit 8 (u64 (b!0)) OR u64 (b!1)
      else if slen = 3 then push_bit 16 (u64 (b!0)) OR push_bit 8 (u64 (b!1)) OR u64 (b!2)
      else if slen = 4 then push_bit 24 (u64 (b!0)) OR push_bit 16 (u64 (b!1))
        OR push_bit 8 (u64 (b!2)) OR u64 (b!3)
      else if slen = 5 then push_bit 32 (u64 (b!0)) OR push_bit 24 (u64 (b!1))
        OR push_bit 16 (u64 (b!2)) OR push_bit 8 (u64 (b!3)) OR u64 (b!4)
      else if slen = 6 then push_bit 40 (u64 (b!0)) OR push_bit 32 (u64 (b!1))
        OR push_bit 24 (u64 (b!2)) OR push_bit 16 (u64 (b!3)) OR push_bit 8 (u64 (b!4)) OR u64 (b!5)
      else if slen = 7 then push_bit 48 (u64 (b!0)) OR push_bit 40 (u64 (b!1))
        OR push_bit 32 (u64 (b!2)) OR push_bit 24 (u64 (b!3)) OR push_bit 16 (u64 (b!4))
        OR push_bit 8 (u64 (b!5)) OR u64 (b!6)
      else if slen = 8 then push_bit 56 (u64 (b!0)) OR push_bit 48 (u64 (b!1))
        OR push_bit 40 (u64 (b!2)) OR push_bit 32 (u64 (b!3)) OR push_bit 24 (u64 (b!4))
        OR push_bit 16 (u64 (b!5)) OR push_bit 8 (u64 (b!6)) OR u64 (b!7)
      else 0)"

definition readSize :: "bytes \<Rightarrow> byte \<Rightarrow> uint64 result" where
  "readSize b slen =
     (if length b < unat slen then Inl ErrUnexpectedEOF
      else let s = readSize_val b (unat slen) in
        if s < 56 \<or> b ! 0 = 0 then Inl ErrCanonSize else Inr s)"

text \<open>
  \<^verbatim>\<open>readKind\<close> returns kind, tag size and content size.  Lengths of slices are natural
  numbers; the tag size never exceeds the length where the last test subtracts it.  Reading
  \<^verbatim>\<open>buf[1]\<close> of a one-byte slice is a panic.
\<close>

definition readKind :: "bytes \<Rightarrow> (rlp_kind \<times> nat \<times> nat) result" where
  "readKind buf =
     (case buf of
        [] \<Rightarrow> Inl ErrUnexpectedEOF
      | b # rest \<Rightarrow>
          let r =
            (if b < 0x80 then Inr (KByte, 0, 1)
             else if b < 0xB8 then
               (let cs = unat (b - 0x80) in
                if cs = 1 \<and> rest = [] then Inl (Panic ''index out of range'')
                else if cs = 1 \<and> hd rest < 128 then Inl ErrCanonSize
                else Inr (KString, 1, cs))
             else if b < 0xC0 then
               (case readSize rest (b - 0xB7) of Inl e \<Rightarrow> Inl e
                | Inr s \<Rightarrow> Inr (KString, unat (b - 0xB7) + 1, unat s))
             else if b < 0xF8 then Inr (KList, 1, unat (b - 0xC0))
             else
               (case readSize rest (b - 0xF7) of Inl e \<Rightarrow> Inl e
                | Inr s \<Rightarrow> Inr (KList, unat (b - 0xF7) + 1, unat s)))
          in case r of
               Inl e \<Rightarrow> Inl e
             | Inr (k, ts, cs) \<Rightarrow>
                 if length buf - ts < cs then Inl ErrValueTooLarge else Inr (k, ts, cs))"

definition Split :: "bytes \<Rightarrow> (rlp_kind \<times> bytes \<times> bytes) result" where
  "Split b =
     (case readKind b of Inl e \<Rightarrow> Inl e
      | Inr (k, ts, cs) \<Rightarrow> Inr (k, slice ts (ts + cs) b, drop (ts + cs) b))"

definition SplitString :: "bytes \<Rightarrow> (bytes \<times> bytes) result" where
  "SplitString b =
     (case Split b of Inl e \<Rightarrow> Inl e
      | Inr (k, content, rest) \<Rightarrow>
          if k = KList then Inl ErrExpectedString else Inr (content, rest))"

definition SplitList :: "bytes \<Rightarrow> (bytes \<times> bytes) result" where
  "SplitList b =
     (case Split b of Inl e \<Rightarrow> Inl e
      | Inr (k, content, rest) \<Rightarrow>
          if k \<noteq> KList then Inl ErrExpectedList else Inr (content, rest))"

definition ListSize :: "uint64 \<Rightarrow> uint64" where
  "ListSize contentSize = word_of_nat (headsize contentSize) + contentSize"

text \<open>Every value \<^verbatim>\<open>readKind\<close> accepts is non-empty, so the counting loop ends.\<close>

lemma readKind_progress: "readKind buf = Inr (k, ts, cs) \<Longrightarrow> buf \<noteq> [] \<and> 0 < ts + cs"
  by (auto simp: readKind_def Let_def split: list.splits if_splits sum.splits)

function CountValues_loop :: "nat \<Rightarrow> bytes \<Rightarrow> nat result" where
  "CountValues_loop i b =
     (if length b > 0 then
        (case readKind b of Inl e \<Rightarrow> Inl e
         | Inr (k, tagsize, sz) \<Rightarrow> CountValues_loop (i + 1) (drop (tagsize + sz) b))
      else Inr i)"
  by pat_completeness auto
termination
  by (relation "measure (\<lambda>(i, b). length b)") (auto dest: readKind_progress)

declare CountValues_loop.simps [simp del]

definition CountValues :: "bytes \<Rightarrow> nat result" where
  "CountValues b = CountValues_loop 0 b"

subsection \<open>The reference encoding\<close>

definition enc_str :: "bytes \<Rightarrow> bytes" where
  "enc_str b =
     (if length b = 1 \<and> hd b \<le> 0x7F then b
      else puthead 0x80 0xB7 (word_of_nat (length b)) @ b)"

definition enc_list :: "bytes \<Rightarrow> bytes" where
  "enc_list payload = puthead 0xC0 0xF7 (word_of_nat (length payload)) @ payload"

fun rlp_enc :: "rlp_val \<Rightarrow> bytes" where
  "rlp_enc (RBool b) = enc_str (if b then [1] else [])"
| "rlp_enc (RUint i) = enc_str (nat_be (unat i))"
| "rlp_enc (RBig p) = enc_str (case p of None \<Rightarrow> [] | Some i \<Rightarrow> big_Bytes i)"
| "rlp_enc (RBytes b) = enc_str b"
| "rlp_enc (RList vs) = enc_list (concat (map rlp_enc vs))"

text \<open>What \<^verbatim>\<open>Encode\<close> accepts: no negative integer anywhere.\<close>

fun encodable :: "rlp_val \<Rightarrow> bool" where
  "encodable (RBig (Some i)) = (0 \<le> i)"
| "encodable (RList vs) = list_all encodable vs"
| "encodable _ = True"

section \<open>Lemmas\<close>

subsection \<open>Headers\<close>

lemma unat_byte_of_drop: "unat (byte_of (drop_bit n i)) = (unat i div 2 ^ n) mod 256"
  unfolding byte_of_def unsigned_ucast_eq unsigned_drop_bit_eq
  using unat64_less [of i] by (simp add: take_bit_eq_mod drop_bit_eq_div)

lemma unat_byte_of: "unat (byte_of i) = unat i mod 256"
  using unat_byte_of_drop [of 0 i] by simp

lemma byte_of_drop: "byte_of (drop_bit n i) = word_of_nat (unat i div 2 ^ n mod 256)"
  by (rule eq_word_of_natI) (rule unat_byte_of_drop)

lemma byte_of_word: "byte_of i = word_of_nat (unat i mod 256)"
  by (rule eq_word_of_natI) (rule unat_byte_of)

lemma putint_eq: "putint i = (if i = 0 then [0] else nat_be (unat i))"
proof (cases "i = 0")
  case True
  then show ?thesis by (simp add: putint_def byte_of_def)
next
  case False
  define n where "n = unat i"
  have n0: "n \<noteq> 0" using False by (simp add: n_def unat_eq_0)
  have lt: "n < 256 ^ 8" using unsigned_less [of i] by (simp add: n_def)
  have cmp: "i < 256 \<longleftrightarrow> n < 256" "i < 65536 \<longleftrightarrow> n < 65536" "i < 16777216 \<longleftrightarrow> n < 16777216"
    "i < 4294967296 \<longleftrightarrow> n < 4294967296" "i < 1099511627776 \<longleftrightarrow> n < 1099511627776"
    "i < 281474976710656 \<longleftrightarrow> n < 281474976710656"
    "i < 72057594037927936 \<longleftrightarrow> n < 72057594037927936"
    by (simp_all add: word_less_nat_alt n_def)
  note bo = byte_of_drop [of _ i, folded n_def] byte_of_word [of i, folded n_def]
  consider "n < 256" | k where "k \<in> {1..7}" "256 ^ k \<le> n" "n < 256 ^ Suc k"
  proof -
    assume a: "n < 256 \<Longrightarrow> thesis" and b: "\<And>k. k \<in> {1..7} \<Longrightarrow> 256 ^ k \<le> n \<Longrightarrow> n < 256 ^ Suc k \<Longrightarrow> thesis"
    define m where "m = length (nat_be n)"
    have m8: "m \<le> 8" using lt by (simp add: m_def length_nat_be_le del: power_numeral)
    have "n < 256 ^ m" using length_nat_be_le [of n m] by (simp add: m_def)
    moreover have "m \<noteq> 0" using n0 by (simp add: m_def)
    moreover have "\<not> length (nat_be n) \<le> m - 1" using \<open>m \<noteq> 0\<close> unfolding m_def by linarith
    then have "\<not> n < 256 ^ (m - 1)" by (simp only: length_nat_be_le not_False_eq_True)
    ultimately show thesis using a b [of "m - 1"] m8
      by (cases "m = 1") (auto simp: not_less Suc_le_eq)
  qed
  then show ?thesis
  proof cases
    case 1
    with False n0 show ?thesis
      by (simp add: putint_def cmp bo nat_be_small n_def [symmetric])
  next
    case 2
    then have "nat_be n = be_fixed (Suc k) n" by (intro nat_be_fixed)
    moreover from 2(1) have "k = 1 \<or> k = 2 \<or> k = 3 \<or> k = 4 \<or> k = 5 \<or> k = 6 \<or> k = 7" by auto
    ultimately show ?thesis using 2(2,3) False
      by (elim disjE) (simp_all add: putint_def cmp bo be_fixed_numeral n_def [symmetric] div_mult2_eq [symmetric])
  qed
qed

lemma intsize_loop_eq: "intsize_loop s i = s + length (nat_be (unat i div 256))"
proof (induction s i rule: intsize_loop.induct)
  case (1 s i)
  define i' where "i' = drop_bit 8 i"
  have u: "unat i' = unat i div 256" unfolding i'_def by (simp add: drop_bit_eq_div unat_div)
  show ?case
  proof (cases "i' = 0")
    case True
    with u show ?thesis by (subst intsize_loop.simps) (simp add: i'_def [symmetric])
  next
    case False
    then have "unat i' \<noteq> 0" by (simp add: unat_eq_0)
    with False 1 [OF i'_def] show ?thesis
      by (subst intsize_loop.simps)
         (simp add: i'_def [symmetric] u [symmetric] length_nat_be_step [of "unat i'"])
  qed
qed

lemma intsize_eq: "intsize i = length (putint i)"
  by (simp add: intsize_def intsize_loop_eq putint_eq length_nat_be_step unat_eq_0)

lemma length_puthead: "length (puthead a b s) = headsize s"
  by (simp add: puthead_def headsize_def intsize_eq Let_def)

lemma be_nat_putint [simp]: "be_nat (putint i) = unat i"
  by (simp add: putint_eq be_nat_Cons)

lemma length_putint: "length (putint i) \<in> {1..8}"
proof -
  have "unat i < 256 ^ 8" using unsigned_less [of i] by simp
  then have "length (nat_be (unat i)) \<le> 8" by (simp only: length_nat_be_le)
  then show ?thesis by (auto simp: putint_eq Suc_le_eq unat_eq_0)
qed

lemma hd_putint: "i \<noteq> 0 \<Longrightarrow> hd (putint i) \<noteq> 0"
  by (simp add: putint_eq hd_nat_be unat_eq_0)

text \<open>The shifts of readSize read the slice big-endian.\<close>

lemma word_be_step:
  "(word_of_nat (n * 256 + unat b) :: uint64) = push_bit 8 (word_of_nat n) OR u64 b"
proof -
  have "(push_bit 8 (word_of_nat n) :: uint64) AND u64 b = 0"
    by (rule bit_eqI) (auto simp: bit_simps dest: bit_imp_le_length)
  then have "push_bit 8 (word_of_nat n) OR u64 b = push_bit 8 (word_of_nat n) + u64 b"
    by (simp add: disjunctive_add_eq_or)
  then show ?thesis by (simp add: push_bit_eq_mult mult.commute)
qed

lemma word_be_foldl:
  "(word_of_nat (be_nat bs) :: uint64) = foldl (\<lambda>a b. push_bit 8 a OR u64 b) 0 bs"
  by (induction bs rule: rev_induct) (simp_all add: word_be_step del: of_nat_add of_nat_mult)

lemma readSize_val_eq:
  assumes "k \<in> {1..8}" and "k \<le> length b"
  shows "readSize_val b k = word_of_nat (be_nat (take k b))"
proof -
  have t: "take k b = map ((!) b) [0..<k]" using assms(2) by (intro nth_equalityI) auto
  from assms(1) have "k = 1 \<or> k = 2 \<or> k = 3 \<or> k = 4 \<or> k = 5 \<or> k = 6 \<or> k = 7 \<or> k = 8" by auto
  then show ?thesis unfolding t word_be_foldl
    by (elim disjE) (simp_all add: readSize_val_def upt_rec push_bit_or push_bit_push_bit or.assoc
      numeral_2_eq_2 [symmetric])
qed

subsection \<open>What a writer adds to the buffer\<close>

text \<open>
  \<open>seg off s hs\<close> merges a segment \<open>s\<close> of the string data that starts at offset
  \<open>off\<close> with the heads \<open>hs\<close> recorded inside it; \<open>writes w w' out\<close> says that
  going from \<open>w\<close> to \<open>w'\<close> appended string data and heads that merge to \<open>out\<close>.
\<close>

definition heads_in :: "nat \<Rightarrow> nat \<Rightarrow> (nat \<times> nat) list \<Rightarrow> bool" where
  "heads_in lo hi hs \<longleftrightarrow> sorted (map fst hs) \<and> (\<forall>h \<in> set hs. lo \<le> fst h \<and> fst h \<le> hi)"

fun seg :: "nat \<Rightarrow> bytes \<Rightarrow> (nat \<times> nat) list \<Rightarrow> bytes" where
  "seg off s [] = s"
| "seg off s (h # hs) =
     take (fst h - off) s @ listhead_encode h @ seg (fst h) (drop (fst h - off) s) hs"

definition writes :: "encbuf \<Rightarrow> encbuf \<Rightarrow> bytes \<Rightarrow> bool" where
  "writes w w' out \<longleftrightarrow>
     (\<exists>s hs. str w' = str w @ s \<and> lheads w' = lheads w @ hs
        \<and> heads_in (length (str w)) (length (str w) + length s) hs
        \<and> seg (length (str w)) s hs = out \<and> lhsize w' + length s = lhsize w + length out)"

lemma seg_append:
  assumes "heads_in off p hs1" and "off + length s1 = p" and "heads_in p hi hs2"
  shows "seg off (s1 @ s2) (hs1 @ hs2) = seg off s1 hs1 @ seg p s2 hs2"
  using assms(1,2)
proof (induction hs1 arbitrary: off s1)
  case Nil
  with assms(3) show ?case by (cases hs2) (auto simp: heads_in_def)
next
  case (Cons h hs)
  let ?s = "drop (fst h - off) s1"
  have "fst h - off \<le> length s1" and "heads_in (fst h) p hs" and "fst h + length ?s = p"
    using Cons.prems by (auto simp: heads_in_def)
  with Cons.IH [of "fst h" ?s] show ?case by simp
qed

lemma merge_heads_seg:
  "heads_in strpos (length s) hs \<Longrightarrow> strpos \<le> length s \<Longrightarrow> merge_heads s strpos hs = seg strpos (drop strpos s) hs"
proof (induction hs arbitrary: strpos)
  case (Cons h hs)
  have "strpos \<le> fst h" "fst h \<le> length s" "heads_in (fst h) (length s) hs"
    using Cons.prems by (auto simp: heads_in_def)
  then have "strpos + length (slice strpos (fst h) s) = fst h" by simp
  with \<open>fst h \<le> length s\<close> \<open>strpos \<le> fst h\<close> Cons.IH [OF \<open>heads_in (fst h) (length s) hs\<close>]
  show ?case by (simp add: slice_def Let_def)
qed simp

lemma writes_put_str: "writes w (put_str b w) b"
  by (auto simp: writes_def put_str_def heads_in_def)

lemma writes_refl: "writes w w []"
  by (auto simp: writes_def heads_in_def)

lemma writes_trans:
  assumes "writes w w1 out1" and "writes w1 w2 out2"
  shows "writes w w2 (out1 @ out2)"
proof -
  obtain s1 h1 where 1: "str w1 = str w @ s1" "lheads w1 = lheads w @ h1"
      "heads_in (length (str w)) (length (str w) + length s1) h1"
      "seg (length (str w)) s1 h1 = out1" "lhsize w1 + length s1 = lhsize w + length out1"
    using assms(1) by (auto simp: writes_def)
  obtain s2 h2 where 2: "str w2 = str w1 @ s2" "lheads w2 = lheads w1 @ h2"
      "heads_in (length (str w1)) (length (str w1) + length s2) h2"
      "seg (length (str w1)) s2 h2 = out2" "lhsize w2 + length s2 = lhsize w1 + length out2"
    using assms(2) by (auto simp: writes_def)
  have "heads_in (length (str w)) (length (str w) + length (s1 @ s2)) (h1 @ h2)"
    using 1(1,3) 2(3) by (force simp: heads_in_def sorted_append)
  moreover have "seg (length (str w)) (s1 @ s2) (h1 @ h2) = out1 @ out2"
    using seg_append [OF 1(3) refl 2(3) [unfolded 1(1) length_append]] 1(1,4) 2(4) by simp
  ultimately show ?thesis using 1 2
    unfolding writes_def by (intro exI [of _ "s1 @ s2"] exI [of _ "h1 @ h2"]) auto
qed

lemma word64_less_56: "n < 2 ^ 64 \<Longrightarrow> (word_of_nat n :: uint64) < 56 \<longleftrightarrow> n < 56"
  by (simp add: word_less_nat_alt unat_of_nat)

lemma length_puthead_nat:
  "n < 2 ^ 64 \<Longrightarrow>
   length (puthead a b (word_of_nat n)) = (if n < 56 then 1 else 1 + intsize (word_of_nat n))"
  by (simp add: length_puthead headsize_def word64_less_56)

lemma writes_list:
  assumes "encbuf_list w = (lh, w1)" and "writes w1 w2 out" and "length out < 2 ^ 64"
  shows "writes w (encbuf_listEnd lh w2) (enc_list out)"
proof -
  obtain s hs where 2: "str w2 = str w1 @ s" "lheads w2 = lheads w1 @ hs"
      "heads_in (length (str w1)) (length (str w1) + length s) hs"
      "seg (length (str w1)) s hs = out" "lhsize w2 + length s = lhsize w1 + length out"
    using assms(2) by (auto simp: writes_def)
  let ?h = "(length (str w), length out)"
  have 1: "lh = length (lheads w)" "str w1 = str w" "lhsize w1 = lhsize w"
      "lheads w1 = lheads w @ [(length (str w), lhsize w)]"
    using assms(1) by (auto simp: encbuf_list_def)
  have size: "encbuf_size w2 - length (str w) - lhsize w = length out"
    using 1 2 by (simp add: encbuf_size_def)
  have heads: "lheads (encbuf_listEnd lh w2) = lheads w @ ?h # hs"
    using 1 2(2) size by (simp add: encbuf_listEnd_def Let_def nth_append list_update_append)
  have lhs: "lhsize (encbuf_listEnd lh w2) + length s = lhsize w + length (enc_list out)"
    using 1 2 size length_puthead_nat [OF assms(3)]
    by (simp add: encbuf_listEnd_def Let_def nth_append enc_list_def)
  have "str (encbuf_listEnd lh w2) = str w @ s"
    using 1 2 by (simp add: encbuf_listEnd_def Let_def split: prod.split)
  moreover have "heads_in (length (str w)) (length (str w) + length s) (?h # hs)"
    using 1(2) 2(3) by (auto simp: heads_in_def)
  moreover have "seg (length (str w)) s (?h # hs) = enc_list out"
    using 1(2) 2(4) by (simp add: listhead_encode_def enc_list_def)
  ultimately show ?thesis unfolding writes_def using heads lhs by blast
qed

lemma length_enc_str_ge: "length b \<le> length (enc_str b)"
  by (simp add: enc_str_def)

lemma length_enc_list_ge: "length b \<le> length (enc_list b)"
  by (simp add: enc_list_def)

lemma encodeString_eq:
  "length b < 2 ^ 64 \<Longrightarrow> encodeString b w = put_str (enc_str b) w"
  by (simp add: encodeString_def encodeStringHeader_def enc_str_def puthead_def Let_def put_str_def
      word64_less_56 byte_of_word unat_of_nat length_Suc_conv hd_conv_nth nth_Cons') auto

subsection \<open>The writers against the reference encoding\<close>

lemma writeUint_eq: "writeUint i w = put_str (enc_str (nat_be (unat i))) w"
proof -
  have l: "length (nat_be (unat i)) \<le> 8"
    using unat64_less [of i] length_nat_be_le [of "unat i" 8] by simp
  consider "i = 0" | "i \<noteq> 0" "i < 128" | "128 \<le> i" by fastforce
  then show ?thesis
  proof cases
    case 1
    then show ?thesis by (simp add: writeUint_def enc_str_def puthead_def byte_of_def)
  next
    case 2
    then have "unat i < 128" "unat i \<noteq> 0" by (simp_all add: word_less_nat_alt unat_eq_0)
    then have "nat_be (unat i) = [byte_of i]" and "byte_of i \<le> 0x7F"
      by (simp_all add: nat_be_small byte_of_word word_le_nat_alt unat_byte_of [unfolded byte_of_def])
    then show ?thesis using 2 by (simp add: writeUint_def enc_str_def)
  next
    case 3
    then have u: "128 \<le> unat i" by (simp add: word_le_nat_alt)
    have "\<not> (length (nat_be (unat i)) = 1 \<and> hd (nat_be (unat i)) \<le> 0x7F)"
    proof
      assume a: "length (nat_be (unat i)) = 1 \<and> hd (nat_be (unat i)) \<le> 0x7F"
      then obtain x where x: "nat_be (unat i) = [x]" by (auto simp: length_Suc_conv)
      then have "be_nat [x] = unat i" by (metis be_nat_nat_be)
      with a x u show False by (simp add: be_nat_Cons word_le_nat_alt)
    qed
    moreover have "(word_of_nat (length (nat_be (unat i))) :: uint64) < 56"
      using l by (simp add: word64_less_56)
    moreover have "byte_of (word_of_nat (length (nat_be (unat i)))) = word_of_nat (length (nat_be (unat i)))"
      using l by (simp add: byte_of_word unat_of_nat)
    ultimately show ?thesis using 3
      by (auto simp: writeUint_def putint_eq enc_str_def puthead_def Let_def)
  qed
qed

lemma writeBool_eq: "writeBool b w = put_str (rlp_enc (RBool b)) w"
  by (simp add: writeBool_def enc_str_def puthead_def byte_of_def)

lemma writeBigIntPtr_eq:
  assumes "encodable (RBig p)" and "length (rlp_enc (RBig p)) < 2 ^ 64"
  shows "writeBigIntPtr p w = Inr (put_str (rlp_enc (RBig p)) w)"
proof -
  have e: "put_str [0x80] w = put_str (enc_str []) w"
    by (simp add: enc_str_def puthead_def byte_of_def)
  have "length (big_Bytes i) < 2 ^ 64" if "p = Some i" for i
    using assms(2) that length_enc_str_ge [of "big_Bytes i"] by simp
  then show ?thesis using assms(1) e
    by (auto simp: writeBigIntPtr_def writeBigInt_def encodeString_eq big_Bytes_def split: option.split)
qed

lemma write_val_writes:
  "encodable v \<Longrightarrow> length (rlp_enc v) < 2 ^ 64 \<Longrightarrow>
     \<exists>w'. write_val v w = Inr w' \<and> writes w w' (rlp_enc v)"
  "list_all encodable vs \<Longrightarrow> length (concat (map rlp_enc vs)) < 2 ^ 64 \<Longrightarrow>
     \<exists>w'. write_vals vs w = Inr w' \<and> writes w w' (concat (map rlp_enc vs))"
proof (induction v w and vs w rule: write_val_write_vals.induct)
  case (1 b w)
  then show ?case using writes_put_str by (simp add: writeBool_eq del: rlp_enc.simps)
next
  case (2 i w)
  then show ?case using writes_put_str by (simp add: writeUint_eq)
next
  case (3 p w)
  then show ?case using writes_put_str by (simp add: writeBigIntPtr_eq del: rlp_enc.simps)
next
  case (4 b w)
  then have "length b < 2 ^ 64" using length_enc_str_ge [of b] by simp
  then show ?case using writes_put_str by (simp add: encodeString_eq)
next
  case (5 vs w)
  obtain lh w1 where w1: "encbuf_list w = (lh, w1)" by fastforce
  have len: "length (concat (map rlp_enc vs)) < 2 ^ 64"
    using 5(3) length_enc_list_ge [of "concat (map rlp_enc vs)"] by simp
  then obtain w2 where "write_vals vs w1 = Inr w2" "writes w1 w2 (concat (map rlp_enc vs))"
    using 5(1) [OF w1 [symmetric] refl] 5(2) by auto
  with w1 writes_list [OF w1 _ len] show ?case by auto
next
  case (6 w)
  then show ?case using writes_refl by simp
next
  case (7 v vs w)
  then obtain w1 where w1: "write_val v w = Inr w1" "writes w w1 (rlp_enc v)" by auto
  with 7(2) [OF w1(1)] 7(3,4) obtain w2 where
    "write_vals vs w1 = Inr w2" "writes w1 w2 (concat (map rlp_enc vs))" by auto
  with w1 show ?case by (auto intro: writes_trans)
qed

lemma EncodeToBytes_rlp_enc:
  assumes "encodable v" and "length (rlp_enc v) < 2 ^ 64"
  shows "EncodeToBytes v = Inr (rlp_enc v)"
proof -
  obtain w where w: "write_val v encbuf_reset = Inr w" "writes encbuf_reset w (rlp_enc v)"
    using write_val_writes(1) [OF assms] by blast
  then have "toBytes w = rlp_enc v"
    by (auto simp: writes_def encbuf_reset_def toBytes_def merge_heads_seg)
  with w(1) show ?thesis by (simp add: EncodeToBytes_def)
qed

lemma write_val_error:
  "\<not> encodable v \<Longrightarrow> \<not> is_ok (write_val v w)"
  "\<not> list_all encodable vs \<Longrightarrow> \<not> is_ok (write_vals vs w)"
proof (induction v w and vs w rule: write_val_write_vals.induct)
  case (3 p w)
  then show ?case by (cases p) (auto simp: writeBigIntPtr_def writeBigInt_def)
next
  case (5 vs w)
  obtain lh w1 where w1: "encbuf_list w = (lh, w1)" by fastforce
  with 5(1) [OF w1 [symmetric] refl] 5(2) show ?case by (auto split: sum.split simp: is_ok_iff)
next
  case (7 v vs w)
  then show ?case by (auto split: sum.split simp: is_ok_iff)
qed auto

lemma EncodeToBytes_negative: "\<not> encodable v \<Longrightarrow> \<not> is_ok (EncodeToBytes v)"
  using write_val_error(1) [of v encbuf_reset]
  by (auto simp: EncodeToBytes_def is_ok_iff split: sum.splits)

subsection \<open>Splitting\<close>

lemma unat_tag:
  "n < 64 \<Longrightarrow> unat (0x80 + word_of_nat n :: byte) = 128 + n"
  "n < 64 \<Longrightarrow> unat (0xC0 + word_of_nat n :: byte) = 192 + n"
  "n < 9 \<Longrightarrow> unat (0xB7 + word_of_nat n :: byte) = 183 + n"
  "n < 9 \<Longrightarrow> unat (0xF7 + word_of_nat n :: byte) = 247 + n"
  by (simp_all add: unat_word_ariths unat_of_nat)

lemma readSize_putint:
  assumes "56 \<le> n" and "n < 2 ^ 64"
  shows "readSize (putint (word_of_nat n) @ t) (word_of_nat (length (putint (word_of_nat n)))) = Inr (word_of_nat n)"
proof -
  let ?p = "putint (word_of_nat n)"
  have len: "length ?p \<in> {1..8}" by (rule length_putint)
  then have ul: "unat (word_of_nat (length ?p) :: byte) = length ?p" by (simp add: unat_of_nat)
  have un: "unat (word_of_nat n :: uint64) = n" using assms(2) by (simp add: unat_of_nat)
  have "readSize_val (?p @ t) (length ?p) = word_of_nat n"
    using readSize_val_eq [OF len, of "?p @ t"] un by simp
  moreover have "(word_of_nat n :: uint64) \<noteq> 0" using assms un by (metis unat_0 not_numeral_le_zero)
  then have "(?p @ t) ! 0 \<noteq> 0" using hd_putint [of "word_of_nat n"] len
    by (cases ?p) auto
  moreover have "\<not> (word_of_nat n :: uint64) < 56" using assms by (simp add: word64_less_56)
  ultimately show ?thesis by (simp add: readSize_def ul Let_def)
qed

definition kind_of_str :: "bytes \<Rightarrow> rlp_kind" where
  "kind_of_str b = (if length b = 1 \<and> hd b \<le> 0x7F then KByte else KString)"

lemma readKind_short_str:
  assumes "n < 56" and "n \<le> length t" and "n = 1 \<Longrightarrow> \<not> hd t \<le> 0x7F"
  shows "readKind ((0x80 + word_of_nat n) # t) = Inr (KString, 1, n)"
proof -
  have "unat (word_of_nat n :: byte) = n" using assms(1) by (simp add: unat_of_nat)
  moreover have "n = 1 \<Longrightarrow> t \<noteq> [] \<and> \<not> unat (hd t) < 128"
    using assms(2,3) by (auto simp: word_le_nat_alt)
  ultimately show ?thesis using assms(1,2)
    by (simp add: readKind_def word_less_nat_alt unat_tag Let_def)
qed

lemma readKind_short_list:
  assumes "n < 56" and "n \<le> length t"
  shows "readKind ((0xC0 + word_of_nat n) # t) = Inr (KList, 1, n)"
  using assms by (simp add: readKind_def word_less_nat_alt unat_tag unat_of_nat)

lemma readKind_long:
  assumes "56 \<le> n" and "n < 2 ^ 64" and "n \<le> length t"
  defines "p \<equiv> putint (word_of_nat n)"
  shows "readKind ((0xB7 + word_of_nat (length p)) # p @ t) = Inr (KString, length p + 1, n)"
    and "readKind ((0xF7 + word_of_nat (length p)) # p @ t) = Inr (KList, length p + 1, n)"
proof -
  have len: "length p \<le> 8" "0 < length p" using length_putint [of "word_of_nat n"] by (auto simp: p_def)
  have u: "unat (word_of_nat (length p) :: byte) = length p" using len by (simp add: unat_of_nat)
  have n: "unat (word_of_nat n :: uint64) = n" using assms(2) by (simp add: unat_of_nat)
  have r: "readSize (p @ t) (word_of_nat (length p)) = Inr (word_of_nat n)"
    unfolding p_def by (rule readSize_putint [OF assms(1,2)])
  show "readKind ((0xB7 + word_of_nat (length p)) # p @ t) = Inr (KString, length p + 1, n)"
    and "readKind ((0xF7 + word_of_nat (length p)) # p @ t) = Inr (KList, length p + 1, n)"
    using len u n r assms(3) by (simp_all add: readKind_def word_less_nat_alt unat_tag)
qed

lemma puthead_short:
  "n < 56 \<Longrightarrow> puthead a b (word_of_nat n) = [a + word_of_nat n]"
  by (simp add: puthead_def word64_less_56 byte_of_word unat_of_nat)

lemma puthead_long:
  "56 \<le> n \<Longrightarrow> n < 2 ^ 64 \<Longrightarrow>
   puthead a b (word_of_nat n) =
     (b + word_of_nat (length (putint (word_of_nat n)))) # putint (word_of_nat n)"
  by (simp add: puthead_def word64_less_56 Let_def)

lemma Split_enc_list:
  assumes "length p < 2 ^ 64"
  shows "Split (enc_list p @ rest) = Inr (KList, p, rest)"
proof (cases "length p < 56")
  case True
  with readKind_short_list [of "length p" "p @ rest"] show ?thesis
    by (simp add: Split_def enc_list_def puthead_short slice_def)
next
  case False
  with assms readKind_long(2) [of "length p" "p @ rest"] show ?thesis
    by (simp add: Split_def enc_list_def puthead_long slice_def)
qed

lemma Split_enc_str:
  assumes "length b < 2 ^ 64"
  shows "Split (enc_str b @ rest) = Inr (kind_of_str b, b, rest)"
proof (cases "length b = 1 \<and> hd b \<le> 0x7F")
  case True
  then obtain x where "b = [x]" "x < 0x80"
    by (auto simp: length_Suc_conv word_le_nat_alt word_less_nat_alt)
  then show ?thesis using True
    by (simp add: Split_def readKind_def enc_str_def kind_of_str_def slice_def)
next
  case single: False
  then have e: "enc_str b = puthead 0x80 0xB7 (word_of_nat (length b)) @ b"
    and k: "kind_of_str b = KString" by (auto simp: enc_str_def kind_of_str_def)
  show ?thesis
  proof (cases "length b < 56")
    case True
    have "length b = 1 \<Longrightarrow> \<not> hd (b @ rest) \<le> 0x7F" using single by (cases b) auto
    with True readKind_short_str [of "length b" "b @ rest"] show ?thesis
      by (simp add: Split_def e k puthead_short slice_def)
  next
    case False
    with assms readKind_long(1) [of "length b" "b @ rest"] show ?thesis
      by (simp add: Split_def e k puthead_long slice_def)
  qed
qed

text \<open>Canonical\<close>

lemma readSize_canonical:
  assumes "readSize b k = Inr s" and "k \<in> {1..8}"
  shows "unat k \<le> length b \<and> 56 \<le> unat s \<and> take (unat k) b = putint s"
proof -
  have k: "unat k \<in> {1..8}" using assms(2) by (auto simp: word_le_nat_alt)
  have len: "unat k \<le> length b" and s: "s = readSize_val b (unat k)" "\<not> s < 56" "b ! 0 \<noteq> 0"
    using assms(1) by (auto simp: readSize_def Let_def split: if_splits)
  let ?t = "take (unat k) b"
  have t: "length ?t = unat k" "?t \<noteq> []" "hd ?t \<noteq> 0"
    using len k s(3) by (cases b; auto)+
  have "be_nat ?t < 256 ^ 8"
    using be_nat_less [of ?t] k t(1) power_increasing [of "unat k" 8 "256::nat"] by (auto simp: less_le_trans)
  moreover have "s = word_of_nat (be_nat ?t)"
    using s(1) readSize_val_eq [OF k len] by simp
  ultimately have u: "unat s = be_nat ?t" by (simp add: unat_of_nat)
  have "nat_be (be_nat ?t) = ?t" using t by (intro nat_be_be_nat) simp
  moreover have "s \<noteq> 0" using s(2) by auto
  ultimately have "putint s = ?t" using u by (simp add: putint_eq)
  with len s(2) show ?thesis by (simp add: word_less_nat_alt)
qed

lemma readSize_head:
  assumes "readSize rest (b0 - t) = Inr s" and "b0 - t \<in> {1..8}"
  shows "take (unat (b0 - t) + 1) (b0 # rest) = puthead a t (word_of_nat (unat s))
    \<and> 56 \<le> unat s \<and> unat (b0 - t) \<le> length rest"
proof -
  have c: "unat (b0 - t) \<le> length rest" "56 \<le> unat s" "take (unat (b0 - t)) rest = putint s"
    using readSize_canonical [OF assms] by auto
  then have "length (putint s) = unat (b0 - t)" by (metis length_take min.absorb2)
  with c show ?thesis using puthead_long [of "unat s" a t] unat64_less [of s] by simp
qed

lemma readKind_canonical:
  assumes "readKind b = Inr (k, ts, cs)"
  shows "ts + cs \<le> length b \<and> cs < 2 ^ 64 \<and>
    (k = KByte \<and> ts = 0 \<and> cs = 1 \<and> hd b \<le> 0x7F
     \<or> k = KString \<and> take ts b = puthead 0x80 0xB7 (word_of_nat cs)
         \<and> (cs = 1 \<longrightarrow> \<not> b ! ts \<le> 0x7F)
     \<or> k = KList \<and> take ts b = puthead 0xC0 0xF7 (word_of_nat cs))"
proof -
  obtain b0 rest where b: "b = b0 # rest" using readKind_progress [OF assms] by (cases b) auto
  consider "b0 < 0x80" | "\<not> b0 < 0x80" "b0 < 0xB8" | "\<not> b0 < 0x80" "\<not> b0 < 0xB8" "b0 < 0xC0"
    | "\<not> b0 < 0x80" "\<not> b0 < 0xB8" "\<not> b0 < 0xC0" "b0 < 0xF8"
    | "\<not> b0 < 0x80" "\<not> b0 < 0xB8" "\<not> b0 < 0xC0" "\<not> b0 < 0xF8" by blast
  then show ?thesis
  proof cases
    case 1
    then show ?thesis using assms
      by (auto simp: readKind_def b word_less_nat_alt word_le_nat_alt split: if_splits)
  next
    case 2
    then have "unat (b0 - 0x80) < 56" by (simp add: word_less_nat_alt unat_sub word_le_nat_alt)
    with 2 assms puthead_short [of "unat (b0 - 0x80)"] show ?thesis
      by (auto simp: readKind_def b Let_def word_le_nat_alt word_less_nat_alt hd_conv_nth
          split: if_splits)
  next
    case 3
    then have r: "b0 - 0xB7 \<in> {1..8}"
      by (auto simp: word_less_nat_alt word_le_nat_alt unat_sub)
    from 3 assms obtain s where "readSize rest (b0 - 0xB7) = Inr s" "k = KString"
      "ts = unat (b0 - 0xB7) + 1" "cs = unat s" "\<not> length b - ts < cs"
      by (auto simp: readKind_def b split: if_splits sum.splits)
    with readSize_head [OF this(1) r, of "0x80"] unat64_less [of s] show ?thesis by (auto simp: b)
  next
    case 4
    then have "unat (b0 - 0xC0) < 56" by (simp add: word_less_nat_alt unat_sub word_le_nat_alt)
    with 4 assms puthead_short [of "unat (b0 - 0xC0)"] show ?thesis
      by (auto simp: readKind_def b Let_def split: if_splits)
  next
    case 5
    then have r: "b0 - 0xF7 \<in> {1..8}"
      using unat_byte_less [of b0] by (auto simp: word_less_nat_alt word_le_nat_alt unat_sub simp del: unat_byte_less)
    from 5 assms obtain s where "readSize rest (b0 - 0xF7) = Inr s" "k = KList"
      "ts = unat (b0 - 0xF7) + 1" "cs = unat s" "\<not> length b - ts < cs"
      by (auto simp: readKind_def b split: if_splits sum.splits)
    with readSize_head [OF this(1) r, of "0xC0"] unat64_less [of s] show ?thesis by (auto simp: b)
  qed
qed

lemma Split_canonical:
  assumes "Split b = Inr (k, c, r)"
  shows "b = (if k = KList then enc_list c else enc_str c) @ r \<and> length c < 2 ^ 64
    \<and> (k \<noteq> KList \<longrightarrow> k = kind_of_str c)"
proof -
  obtain ts cs where rk: "readKind b = Inr (k, ts, cs)"
    and c: "c = slice ts (ts + cs) b" and r: "r = drop (ts + cs) b"
    using assms by (auto simp: Split_def split: sum.splits prod.splits)
  note can = readKind_canonical [OF rk]
  have len: "length c = cs" using can by (simp add: c)
  have b: "b = take ts b @ c @ r"
    unfolding c r slice_def by (simp add: drop_drop [symmetric] add.commute del: drop_drop)
  have h: "cs = 1 \<Longrightarrow> hd c = b ! ts"
    using can by (simp add: c slice_def hd_conv_nth)
  from can consider "k = KByte" "ts = 0" "cs = 1" "hd b \<le> 0x7F"
    | "k = KString" "take ts b = puthead 0x80 0xB7 (word_of_nat cs)" "cs = 1 \<longrightarrow> \<not> hd c \<le> 0x7F"
    | "k = KList" "take ts b = puthead 0xC0 0xF7 (word_of_nat cs)" using h by auto
  then show ?thesis
  proof cases
    case 1
    then have "hd c \<le> 0x7F" using h len b by (metis append_Nil hd_append2 length_0_conv take0 zero_neq_one)
    with 1 b len can show ?thesis by (simp add: enc_str_def kind_of_str_def)
  next
    case 2
    with b len can show ?thesis by (auto simp: enc_str_def kind_of_str_def)
  next
    case 3
    with b len can show ?thesis by (auto simp: enc_list_def)
  qed
qed

lemma rlp_enc_shape: "\<exists>c. rlp_enc v = enc_str c \<or> rlp_enc v = enc_list c"
  by (cases v) auto

lemma Split_encoded:
  assumes "length (rlp_enc v) < 2 ^ 64"
  shows "\<exists>k c. Split (rlp_enc v @ rest) = Inr (k, c, rest)"
proof -
  obtain c where "rlp_enc v = enc_str c \<or> rlp_enc v = enc_list c" using rlp_enc_shape by blast
  moreover from this have "length c < 2 ^ 64"
    using assms length_enc_str_ge [of c] length_enc_list_ge [of c] by auto
  ultimately show ?thesis by (auto simp: Split_enc_str Split_enc_list)
qed

lemma CountValues_loop_enc:
  "\<forall>v \<in> set vs. length (rlp_enc v) < 2 ^ 64 \<Longrightarrow>
   CountValues_loop i (concat (map rlp_enc vs)) = Inr (i + length vs)"
proof (induction vs arbitrary: i)
  case Nil
  show ?case by (subst CountValues_loop.simps) simp
next
  case (Cons v vs)
  obtain k c where "Split (rlp_enc v @ concat (map rlp_enc vs)) = Inr (k, c, concat (map rlp_enc vs))"
    using Split_encoded Cons.prems by fastforce
  then obtain ts cs where "readKind (rlp_enc v @ concat (map rlp_enc vs)) = Inr (k, ts, cs)"
    and "drop (ts + cs) (rlp_enc v @ concat (map rlp_enc vs)) = concat (map rlp_enc vs)"
    by (auto simp: Split_def split: sum.splits prod.splits)
  with Cons readKind_progress [OF this(1)] show ?case by (subst CountValues_loop.simps) auto
qed

section \<open>Properties\<close>

text \<open>C1. \<^verbatim>\<open>EncodeToBytes\<close> is the RLP encoding: the buffer of strings and pending list
  headers that the encoder fills, flushed by \<^verbatim>\<open>toBytes\<close>, is the recursive encoding of
  the value, and a value with a negative integer in it is refused.\<close>

theorem EncodeToBytes_correct:
  assumes "length (rlp_enc v) < 2 ^ 64"
  shows "if encodable v then EncodeToBytes v = Inr (rlp_enc v) else \<not> is_ok (EncodeToBytes v)"
  using EncodeToBytes_rlp_enc [OF _ assms] EncodeToBytes_negative by auto

theorem EncodeToBytes_correct_witness:
  "EncodeToBytes (RList [RUint 1024, RBytes [99, 97, 116], RBig (Some 15), RList []]) =
     Inr [0xC9, 0x82, 4, 0, 0x83, 99, 97, 116, 15, 0xC0]"
proof -
  let ?v = "RList [RUint 1024, RBytes [99, 97, 116], RBig (Some 15), RList []]"
  have e: "rlp_enc ?v = [0xC9, 0x82, 4, 0, 0x83, 99, 97, 116, 15, 0xC0]" by code_simp
  show ?thesis using EncodeToBytes_correct [of ?v] unfolding e by simp
qed

text \<open>C2. \<^verbatim>\<open>Split\<close> succeeds exactly on data that starts with a canonical encoding, and
  returns the kind and the content of that value and the bytes behind it.\<close>

theorem Split_iff:
  "Split b = Inr (k, c, r) \<longleftrightarrow>
     b = (if k = KList then enc_list c else enc_str c) @ r \<and> length c < 2 ^ 64
     \<and> (k = KList \<or> k = kind_of_str c)"
proof
  assume "Split b = Inr (k, c, r)"
  from Split_canonical [OF this] show "b = (if k = KList then enc_list c else enc_str c) @ r \<and>
      length c < 2 ^ 64 \<and> (k = KList \<or> k = kind_of_str c)" by blast
next
  assume a: "b = (if k = KList then enc_list c else enc_str c) @ r \<and> length c < 2 ^ 64
     \<and> (k = KList \<or> k = kind_of_str c)"
  have "kind_of_str c \<noteq> KList" by (simp add: kind_of_str_def)
  with a show "Split b = Inr (k, c, r)"
    using Split_enc_list [of c r] Split_enc_str [of c r] by (cases "k = KList") auto
qed

text \<open>C3. \<^verbatim>\<open>CountValues\<close> counts the values of a concatenation of encodings.\<close>

theorem CountValues_concat:
  assumes "\<forall>v \<in> set vs. length (rlp_enc v) < 2 ^ 64"
  shows "CountValues (concat (map rlp_enc vs)) = Inr (length vs)"
  using CountValues_loop_enc [OF assms, of 0] by (simp add: CountValues_def)

theorem CountValues_concat_witness: "CountValues [0x82, 4, 0, 0xC0, 15] = Inr 3"
proof -
  let ?vs = "[RUint 1024, RList [], RUint 15]"
  have e: "concat (map rlp_enc ?vs) = [0x82, 4, 0, 0xC0, 15]" by code_simp
  have "list_all (\<lambda>v. length (rlp_enc v) \<le> 3) ?vs" by code_simp
  then have "\<forall>v \<in> set ?vs. length (rlp_enc v) < 2 ^ 64"
    unfolding list_all_iff by (intro ballI) (drule (1) bspec, simp)
  from CountValues_concat [OF this] show ?thesis unfolding e by simp
qed

text \<open>C4. Splitting untrusted input panics on one input only: the single byte \<^verbatim>\<open>0x81\<close>
  announces a one-byte string and \<^verbatim>\<open>readKind\<close> reads that byte without a length check.\<close>

theorem Split_panic_iff: "Split b = Inl (Panic m) \<longleftrightarrow> b = [0x81] \<and> m = ''index out of range''"
proof -
  have "readSize r n \<noteq> Inl (Panic m)" for r n by (simp add: readSize_def Let_def)
  moreover have "unat (x - 0x80) = 1 \<longleftrightarrow> x = 0x81" for x :: byte
    using word_unat_eq_iff [of "x - 0x80" 1] by (simp add: diff_eq_eq)
  ultimately have "readKind b = Inl (Panic m) \<longleftrightarrow> b = [0x81] \<and> m = ''index out of range''"
    by (auto simp: readKind_def Let_def split: list.splits sum.splits if_splits)
  then show ?thesis by (auto simp: Split_def split: sum.splits)
qed

end
