(* ===== verification/Rlp_Stream.thy ===== *)
theory Rlp_Stream
  imports Rlp_Encode
begin

text \<open>
  Package \<^verbatim>\<open>rlp\<close>, the reading side: the \<^verbatim>\<open>Stream\<close> of
  \<^verbatim>\<open>src/rlp/decode.go\<close> as a record with one function per method, and the decoders
  built on it.  A method returns its result and the stream after the call, also when it fails: the
  stream keeps the kind and the error of the value ahead.

  Readers are the \<^verbatim>\<open>bytes.Reader\<close> that \<^verbatim>\<open>DecodeBytes\<close> creates, given by its
  unread bytes.  Positions and sizes are natural numbers: a position never exceeds the size of its
  list (\<open>stack_ok\<close> below), so the subtractions of the code do not wrap.

  The locale \<open>rlp_codec\<close> is the contract between a writer and a decoder of the same Go type;
  its interpretations cover the types of the chain's stored records.
\<close>

record stream =
  s_input :: bytes
  s_remaining :: nat
  s_limited :: bool
  s_kind :: "rlp_kind option"
  s_size :: nat
  s_byteval :: byte
  s_kinderr :: "go_error option"
  s_stack :: "(nat \<times> nat) list"

text \<open>A stream operation; \<open>s_kind = None\<close> is the kind \<^verbatim>\<open>-1\<close> of the code.  The
  innermost list of \<open>s_stack\<close> comes first.\<close>

type_synonym 'a sop = "stream \<Rightarrow> 'a result \<times> stream"

abbreviation "EOL \<equiv> Err ''rlp: end of list''"
abbreviation "ErrMoreThanOneValue \<equiv> Err ''rlp: input contains more than one value''"
abbreviation "errNotInList \<equiv> Err ''rlp: call of ListEnd outside of any list''"
abbreviation "errNotAtEOL \<equiv> Err ''rlp: call of ListEnd not positioned at EOL''"
abbreviation "errUintOverflow \<equiv> Err ''rlp: uint overflow''"
abbreviation "ErrEOF \<equiv> Err ''EOF''"

definition NewStream :: "bytes \<Rightarrow> stream" where
  "NewStream b =
     \<lparr>s_input = b, s_remaining = length b, s_limited = True, s_kind = None, s_size = 0,
      s_byteval = 0, s_kinderr = None, s_stack = []\<rparr>"

definition sret :: "'a \<Rightarrow> 'a sop" where
  "sret x s = (Inr x, s)"

definition serr :: "go_error \<Rightarrow> 'a sop" where
  "serr e s = (Inl e, s)"

definition sbind :: "'a sop \<Rightarrow> ('a \<Rightarrow> 'b sop) \<Rightarrow> 'b sop" where
  "sbind m f s = (case m s of (Inl e, s') \<Rightarrow> (Inl e, s') | (Inr x, s') \<Rightarrow> f x s')"

text \<open>\<^verbatim>\<open>if err := m(); err != nil { return g(err) }\<close>: a changed error.\<close>

definition smap_err :: "(go_error \<Rightarrow> go_error) \<Rightarrow> 'a sop \<Rightarrow> 'a sop" where
  "smap_err g m s = (case m s of (Inl e, s') \<Rightarrow> (Inl (g e), s') | (Inr x, s') \<Rightarrow> (Inr x, s'))"

subsection \<open>Reading\<close>

definition willRead :: "nat \<Rightarrow> unit sop" where
  "willRead n s =
     (let s1 = s\<lparr>s_kind := None\<rparr> in
      case s_stack s1 of
        (pos, sz) # st \<Rightarrow>
          if sz - pos < n then (Inl ErrElemTooLarge, s1)
          else
            (let s2 = s1\<lparr>s_stack := (pos + n, sz) # st\<rparr> in
             if s_limited s2 then
               (if s_remaining s2 < n then (Inl ErrValueTooLarge, s2)
                else (Inr (), s2\<lparr>s_remaining := s_remaining s2 - n\<rparr>))
             else (Inr (), s2))
      | [] \<Rightarrow>
          if s_limited s1 then
            (if s_remaining s1 < n then (Inl ErrValueTooLarge, s1)
             else (Inr (), s1\<lparr>s_remaining := s_remaining s1 - n\<rparr>))
          else (Inr (), s1))"

definition readByte :: "byte sop" where
  "readByte = sbind (willRead 1) (\<lambda>_ s.
     case s_input s of
       [] \<Rightarrow> (Inl ErrUnexpectedEOF, s)
     | b # bs \<Rightarrow> (Inr b, s\<lparr>s_input := bs\<rparr>))"

definition readFull :: "nat \<Rightarrow> bytes sop" where
  "readFull n = sbind (willRead n) (\<lambda>_ s.
     if length (s_input s) < n then (Inl ErrUnexpectedEOF, s\<lparr>s_input := []\<rparr>)
     else (Inr (take n (s_input s)), s\<lparr>s_input := drop n (s_input s)\<rparr>))"

text \<open>\<^verbatim>\<open>readUint\<close> of at most 8 bytes; more would be a negative index into the buffer.\<close>

definition readUint :: "nat \<Rightarrow> nat sop" where
  "readUint sz =
     (if sz = 0 then (\<lambda>s. (Inr 0, s\<lparr>s_kind := None\<rparr>))
      else if sz = 1 then sbind readByte (\<lambda>b. sret (unat b))
      else if 8 < sz then serr (Panic ''index out of range'')
      else sbind (readFull sz) (\<lambda>b.
        if b ! 0 = 0 then serr ErrCanonSize else sret (be_nat b)))"

text \<open>
  \<^verbatim>\<open>readKind\<close> gives the kind and size of the value ahead together with an error, as the
  Go function does: the caller stores all three.
\<close>

definition stream_readKind :: "stream \<Rightarrow> (rlp_kind \<times> nat \<times> go_error option) \<times> stream" where
  "stream_readKind s =
     (case readByte s of
        (Inl err, s1) \<Rightarrow>
          let err' = (if s_stack s1 = [] \<and> (err = ErrUnexpectedEOF \<or> err = ErrValueTooLarge)
                      then ErrEOF else err)
          in ((KByte, 0, Some err'), s1)
      | (Inr b, s1) \<Rightarrow>
          let s2 = s1\<lparr>s_byteval := 0\<rparr> in
          if b < 0x80 then ((KByte, 0, None), s2\<lparr>s_byteval := b\<rparr>)
          else if b < 0xB8 then ((KString, unat (b - 0x80), None), s2)
          else if b < 0xC0 then
            (case readUint (unat (b - 0xB7)) s2 of
               (Inl e, s3) \<Rightarrow> ((KString, 0, Some e), s3)
             | (Inr sz, s3) \<Rightarrow> ((KString, sz, if sz < 56 then Some ErrCanonSize else None), s3))
          else if b < 0xF8 then ((KList, unat (b - 0xC0), None), s2)
          else
            (case readUint (unat (b - 0xF7)) s2 of
               (Inl e, s3) \<Rightarrow> ((KList, 0, Some e), s3)
             | (Inr sz, s3) \<Rightarrow> ((KList, sz, if sz < 56 then Some ErrCanonSize else None), s3)))"

definition Kind :: "(rlp_kind \<times> nat) sop" where
  "Kind s =
     (case s_kind s of
        Some k \<Rightarrow> (case s_kinderr s of None \<Rightarrow> (Inr (k, s_size s), s) | Some e \<Rightarrow> (Inl e, s))
      | None \<Rightarrow>
          let s0 = s\<lparr>s_kinderr := None\<rparr> in
          if (case s_stack s0 of (pos, sz) # st \<Rightarrow> pos = sz | [] \<Rightarrow> False) then (Inl EOL, s0)
          else
            (let ((k, sz, e), s1) = stream_readKind s0;
                 e' = (case e of
                         Some x \<Rightarrow> Some x
                       | None \<Rightarrow>
                           (case s_stack s1 of
                              [] \<Rightarrow> if s_limited s1 \<and> s_remaining s1 < sz
                                    then Some ErrValueTooLarge else None
                            | (pos, lsz) # st \<Rightarrow> if lsz - pos < sz
                                                then Some ErrElemTooLarge else None));
                 s2 = s1\<lparr>s_kind := Some k, s_size := sz, s_kinderr := e'\<rparr>
             in case e' of None \<Rightarrow> (Inr (k, sz), s2) | Some x \<Rightarrow> (Inl x, s2)))"

definition stream_List :: "nat sop" where
  "stream_List = sbind Kind (\<lambda>(k, sz) s.
     if k \<noteq> KList then (Inl ErrExpectedList, s)
     else (Inr sz, s\<lparr>s_stack := (0, sz) # s_stack s, s_kind := None, s_size := 0\<rparr>))"

definition ListEnd :: "unit sop" where
  "ListEnd s =
     (case s_stack s of
        [] \<Rightarrow> (Inl errNotInList, s)
      | (pos, sz) # st \<Rightarrow>
          if pos \<noteq> sz then (Inl errNotAtEOL, s)
          else (Inr (), s\<lparr>s_stack := (case st of [] \<Rightarrow> [] | (p, z) # st' \<Rightarrow> (p + sz, z) # st'),
                         s_kind := None, s_size := 0\<rparr>))"

definition stream_Bytes :: "bytes sop" where
  "stream_Bytes = sbind Kind (\<lambda>(k, sz).
     case k of
       KByte \<Rightarrow> (\<lambda>s. (Inr [s_byteval s], s\<lparr>s_kind := None\<rparr>))
     | KString \<Rightarrow> sbind (readFull sz) (\<lambda>b.
         if sz = 1 \<and> b ! 0 < 128 then serr ErrCanonSize else sret b)
     | KList \<Rightarrow> serr ErrExpectedString)"

definition stream_Raw :: "bytes sop" where
  "stream_Raw = sbind Kind (\<lambda>(k, sz).
     case k of
       KByte \<Rightarrow> (\<lambda>s. (Inr [s_byteval s], s\<lparr>s_kind := None\<rparr>))
     | KString \<Rightarrow> sbind (readFull sz) (\<lambda>b. sret (puthead 0x80 0xB7 (word_of_nat sz) @ b))
     | KList \<Rightarrow> sbind (readFull sz) (\<lambda>b. sret (puthead 0xC0 0xF7 (word_of_nat sz) @ b)))"

definition stream_uint :: "nat \<Rightarrow> nat sop" where
  "stream_uint maxbits = sbind Kind (\<lambda>(k, sz).
     case k of
       KByte \<Rightarrow> (\<lambda>s. if s_byteval s = 0 then (Inl ErrCanonInt, s)
                      else (Inr (unat (s_byteval s)), s\<lparr>s_kind := None\<rparr>))
     | KString \<Rightarrow>
         if maxbits div 8 < sz then serr errUintOverflow
         else sbind (smap_err (\<lambda>e. if e = ErrCanonSize then ErrCanonInt else e) (readUint sz))
                (\<lambda>v. if 0 < sz \<and> v < 128 then serr ErrCanonSize else sret v)
     | KList \<Rightarrow> serr ErrExpectedString)"

definition stream_Bool :: "bool sop" where
  "stream_Bool = sbind (stream_uint 8) (\<lambda>num.
     if num = 0 then sret False else if num = 1 then sret True
     else serr (Err ''rlp: invalid boolean value''))"

subsection \<open>Decoders\<close>

text \<open>
  \<^verbatim>\<open>wrapStreamError\<close>: the message of the wrapped error, for the Go type \<open>typ\<close>.  The
  context that \<^verbatim>\<open>addErrorContext\<close> appends to the message is not kept.
\<close>

definition decodeError :: "string \<Rightarrow> string \<Rightarrow> go_error" where
  "decodeError msg typ = Err (''rlp: '' @ msg @ '' for '' @ typ)"

definition wrapStreamError :: "string \<Rightarrow> go_error \<Rightarrow> go_error" where
  "wrapStreamError typ err =
     (if err = ErrCanonInt then decodeError ''non-canonical integer (leading zero bytes)'' typ
      else if err = ErrCanonSize then decodeError ''non-canonical size information'' typ
      else if err = ErrExpectedList then decodeError ''expected input list'' typ
      else if err = ErrExpectedString then decodeError ''expected input string or byte'' typ
      else if err = errUintOverflow then decodeError ''input string too long'' typ
      else if err = errNotAtEOL then decodeError ''input list has too many elements'' typ
      else err)"

definition decodeUint :: "uint64 sop" where
  "decodeUint = smap_err (wrapStreamError ''uint64'')
     (sbind (stream_uint 64) (\<lambda>n. sret (word_of_nat n)))"

definition decodeBool :: "bool sop" where
  "decodeBool = smap_err (wrapStreamError ''bool'') stream_Bool"

definition decodeBigInt :: "int sop" where
  "decodeBigInt = smap_err (wrapStreamError ''*big.Int'')
     (sbind stream_Bytes (\<lambda>b.
        if 0 < length b \<and> b ! 0 = 0 then serr ErrCanonInt else sret (big_SetBytes b)))"

definition decodeByteSlice :: "bytes sop" where
  "decodeByteSlice = smap_err (wrapStreamError ''[]uint8'') stream_Bytes"

definition decodeByteArray :: "nat \<Rightarrow> string \<Rightarrow> bytes sop" where
  "decodeByteArray vlen typ = sbind Kind (\<lambda>(k, sz).
     case k of
       KByte \<Rightarrow>
         if vlen = 0 then serr (decodeError ''input string too long'' typ)
         else if 1 < vlen then serr (decodeError ''input string too short'' typ)
         else (\<lambda>s. case stream_uint 64 s of
                  (Inl e, s') \<Rightarrow> (Inr [0], s') | (Inr v, s') \<Rightarrow> (Inr [word_of_nat v], s'))
     | KString \<Rightarrow>
         if vlen < sz then serr (decodeError ''input string too long'' typ)
         else if sz < vlen then serr (decodeError ''input string too short'' typ)
         else sbind (readFull vlen) (\<lambda>b.
           if sz = 1 \<and> b ! 0 < 128 then serr (wrapStreamError typ ErrCanonSize) else sret b)
     | KList \<Rightarrow> serr (wrapStreamError typ ErrExpectedString))"

text \<open>
  \<^verbatim>\<open>decodeSliceElems\<close> loops until the element decoder reports the end of the list.  The
  first argument bounds the number of rounds; every successful decoder call consumes input, so one
  more than the unread bytes is enough (\<open>decodeSliceElems_enough\<close>).
\<close>

fun decodeSliceElems :: "nat \<Rightarrow> 'a sop \<Rightarrow> 'a list sop" where
  "decodeSliceElems 0 elemdec s = (Inl (Panic ''out of fuel''), s)"
| "decodeSliceElems (Suc n) elemdec s =
     (case elemdec s of
        (Inl e, s1) \<Rightarrow> if e = EOL then (Inr [], s1) else (Inl e, s1)
      | (Inr x, s1) \<Rightarrow>
          (case decodeSliceElems n elemdec s1 of
             (Inl e, s2) \<Rightarrow> (Inl e, s2)
           | (Inr xs, s2) \<Rightarrow> (Inr (x # xs), s2)))"

definition decodeListSlice :: "string \<Rightarrow> 'a sop \<Rightarrow> 'a list sop" where
  "decodeListSlice typ elemdec =
     sbind (smap_err (wrapStreamError typ) stream_List) (\<lambda>sz.
       if sz = 0 then sbind ListEnd (\<lambda>_. sret [])
       else sbind (\<lambda>s. decodeSliceElems (Suc (length (s_input s))) elemdec s)
              (\<lambda>xs. sbind ListEnd (\<lambda>_. sret xs)))"

text \<open>\<^verbatim>\<open>makeStructDecoder\<close>: the list header, one decoder per field, the end of the list.\<close>

definition struct_field :: "string \<Rightarrow> 'a sop \<Rightarrow> 'a sop" where
  "struct_field typ dec =
     smap_err (\<lambda>e. if e = EOL then decodeError ''too few elements'' typ else e) dec"

definition structDecoder :: "string \<Rightarrow> 'a sop \<Rightarrow> 'a sop" where
  "structDecoder typ flds =
     sbind (smap_err (wrapStreamError typ) stream_List) (\<lambda>_.
       sbind flds (\<lambda>x. sbind (smap_err (wrapStreamError typ) ListEnd) (\<lambda>_. sret x)))"

definition DecodeBytes :: "'a sop \<Rightarrow> bytes \<Rightarrow> 'a result" where
  "DecodeBytes dec b =
     (case dec (NewStream b) of
        (Inl e, s) \<Rightarrow> Inl e
      | (Inr x, s) \<Rightarrow> if 0 < length (s_input s) then Inl ErrMoreThanOneValue else Inr x)"

section \<open>Lemmas\<close>

named_theorems rlp_dec "decoder contracts of the stream operations"
named_theorems rlp_inv "stream operations that keep the stream invariant"

definition room :: "nat \<Rightarrow> (nat \<times> nat) list \<Rightarrow> bool" where
  "room n stk \<longleftrightarrow> (case stk of [] \<Rightarrow> True | (p, z) # st \<Rightarrow> p + n \<le> z)"

definition bump :: "nat \<Rightarrow> (nat \<times> nat) list \<Rightarrow> (nat \<times> nat) list" where
  "bump n stk = (case stk of [] \<Rightarrow> [] | (p, z) # st \<Rightarrow> (p + n, z) # st)"

definition adv :: "nat \<Rightarrow> stream \<Rightarrow> stream" where
  "adv n s = s\<lparr>s_kind := None, s_input := drop n (s_input s),
     s_remaining := s_remaining s - n, s_stack := bump n (s_stack s)\<rparr>"

definition can_read :: "nat \<Rightarrow> stream \<Rightarrow> bool" where
  "can_read n s \<longleftrightarrow> s_limited s \<and> s_remaining s = length (s_input s) \<and> n \<le> length (s_input s)
     \<and> room n (s_stack s)"

definition ready :: "stream \<Rightarrow> bytes \<Rightarrow> (nat \<times> nat) list \<Rightarrow> bool" where
  "ready s inp stk \<longleftrightarrow> s_input s = inp \<and> s_limited s \<and> s_remaining s = length inp
     \<and> s_kind s = None \<and> s_stack s = stk"

lemma room_mono: "room n stk \<Longrightarrow> m \<le> n \<Longrightarrow> room m stk"
  by (auto simp: room_def split: list.splits)

lemma bump_bump [simp]: "bump n (bump m stk) = bump (m + n) stk"
  by (auto simp: bump_def split: list.splits)

lemma bump_0 [simp]: "bump 0 stk = stk"
  by (auto simp: bump_def split: list.splits)

lemma bump_eq_Nil [simp]: "bump n stk = [] \<longleftrightarrow> stk = []"
  by (auto simp: bump_def split: list.splits)

lemma room_bump: "room n (bump m stk) \<longleftrightarrow> room (m + n) stk"
  by (auto simp: room_def bump_def split: list.splits)

lemma adv_sel [simp]:
  "s_input (adv n s) = drop n (s_input s)" "s_stack (adv n s) = bump n (s_stack s)"
  "s_limited (adv n s) = s_limited s" "s_remaining (adv n s) = s_remaining s - n"
  "s_kind (adv n s) = None" "s_byteval (adv n s) = s_byteval s"
  "s_kinderr (adv n s) = s_kinderr s"
  by (simp_all add: adv_def)

lemma can_read_adv: "can_read (m + n) s \<Longrightarrow> can_read n (adv m s)"
  by (auto simp: can_read_def room_bump)

lemma can_read_mono: "can_read n s \<Longrightarrow> m \<le> n \<Longrightarrow> can_read m s"
  by (auto simp: can_read_def intro: room_mono)

lemma willRead_ok:
  "can_read n s \<Longrightarrow>
   willRead n s = (Inr (), s\<lparr>s_kind := None, s_remaining := s_remaining s - n, s_stack := bump n (s_stack s)\<rparr>)"
  by (auto simp: willRead_def can_read_def room_def bump_def Let_def split: list.splits)

lemma readByte_ok: "can_read 1 s \<Longrightarrow> readByte s = (Inr (hd (s_input s)), adv 1 s)"
  by (cases "s_input s") (auto simp: readByte_def sbind_def willRead_ok adv_def, auto simp: can_read_def)

lemma readFull_ok: "can_read n s \<Longrightarrow> readFull n s = (Inr (take n (s_input s)), adv n s)"
  by (auto simp: readFull_def sbind_def willRead_ok adv_def, auto simp: can_read_def)

lemma readUint_ok:
  assumes "can_read n s" and "n \<in> {1..8}" and "n = 1 \<or> hd (s_input s) \<noteq> 0"
  shows "readUint n s = (Inr (be_nat (take n (s_input s))), adv n s)"
proof -
  have ne: "s_input s \<noteq> []" using assms(1,2) by (auto simp: can_read_def)
  show ?thesis
  proof (cases "n = 1")
    case True
    with assms(1) ne show ?thesis
      by (cases "s_input s") (simp_all add: readUint_def sbind_def readByte_ok sret_def be_nat_Cons)
  next
    case False
    with assms ne show ?thesis
      by (simp add: readUint_def sbind_def readFull_ok sret_def hd_conv_nth)
  qed
qed

lemma stream_readKind_byte:
  assumes "can_read 1 s" and "hd (s_input s) < 0x80"
  shows "stream_readKind s = ((KByte, 0, None), (adv 1 s)\<lparr>s_byteval := hd (s_input s)\<rparr>)"
  using assms by (simp add: stream_readKind_def readByte_ok)

lemma readUint_putint:
  assumes "56 \<le> n" "n < 2 ^ 64" "s_input s = putint (word_of_nat n) @ t"
    and "can_read (length (putint (word_of_nat n))) s"
  shows "readUint (length (putint (word_of_nat n))) s = (Inr n, adv (length (putint (word_of_nat n))) s)"
proof -
  have u: "unat (word_of_nat n :: uint64) = n" using assms(2) by (simp add: unat_of_nat)
  then have "(word_of_nat n :: uint64) \<noteq> 0" using assms(1) by (metis not_numeral_le_zero unat_0)
  then have "hd (s_input s) \<noteq> 0"
    using hd_putint [of "word_of_nat n"] length_putint [of "word_of_nat n"] assms(3)
    by (cases "putint (word_of_nat n)") auto
  then show ?thesis using readUint_ok [OF assms(4) length_putint] assms(3) u by simp
qed

lemma stream_readKind_head:
  assumes "n < 2 ^ 64" and "s_input s = puthead a b (word_of_nat n) @ t"
    and "can_read (length (puthead a b (word_of_nat n))) s"
    and "(a, b, k) = (0x80, 0xB7, KString) \<or> (a, b, k) = (0xC0, 0xF7, KList)"
  shows "stream_readKind s =
    ((k, n, None), (adv (length (puthead a b (word_of_nat n))) s)\<lparr>s_byteval := 0\<rparr>)"
proof (cases "n < 56")
  case True
  with assms show ?thesis
    by (auto simp: stream_readKind_def puthead_short readByte_ok word_less_nat_alt unat_tag unat_of_nat)
next
  case False
  let ?p = "putint (word_of_nat n)"
  have p: "puthead a b (word_of_nat n) = (b + word_of_nat (length ?p)) # ?p"
    using False assms(1) by (simp add: puthead_long)
  have len: "length ?p \<le> 8" "0 < length ?p" using length_putint [of "word_of_nat n"] by auto
  then have ul: "unat (word_of_nat (length ?p) :: byte) = length ?p" by (simp add: unat_of_nat)
  have c: "can_read (1 + length ?p) s" using assms(3) p by simp
  then have c1: "can_read 1 s" by (rule can_read_mono) simp
  define s1 where "s1 = (adv (Suc 0) s)\<lparr>s_byteval := 0\<rparr>"
  have s1: "s_input s1 = ?p @ t" "can_read (length ?p) s1"
    using assms(2) p can_read_adv [OF c] by (auto simp: s1_def can_read_def)
  have "readUint (length ?p) s1 = (Inr n, adv (length ?p) s1)"
    using readUint_putint [of n s1 t] s1 False assms(1) by simp
  moreover have "adv (length ?p) s1 = (adv (length (puthead a b (word_of_nat n))) s)\<lparr>s_byteval := 0\<rparr>"
    using p by (simp add: s1_def adv_def)
  moreover have "s_input s = (b + word_of_nat (length ?p)) # ?p @ t" using assms(2) p by simp
  ultimately show ?thesis using assms(4) False len ul readByte_ok [OF c1]
    by (auto simp: stream_readKind_def word_less_nat_alt unat_tag s1_def [symmetric])
qed

lemma room_not_eol: "room n stk \<Longrightarrow> 0 < n \<Longrightarrow> \<not> (case stk of (pos, sz) # st \<Rightarrow> pos = sz | [] \<Rightarrow> False)"
  by (auto simp: room_def split: list.splits)

lemma Kind_fresh:
  assumes "s_kind s = None" and "can_read m s" and "0 < m"
    and "stream_readKind (s\<lparr>s_kinderr := None\<rparr>) = ((k, n, None), s1)"
    and "can_read n s1"
  shows "Kind s = (Inr (k, n), s1\<lparr>s_kind := Some k, s_size := n, s_kinderr := None\<rparr>)"
proof -
  have "\<not> (case s_stack s of (pos, sz) # st \<Rightarrow> pos = sz | [] \<Rightarrow> False)"
    using assms(2,3) room_not_eol by (auto simp: can_read_def)
  moreover have "case s_stack s1 of [] \<Rightarrow> \<not> s_remaining s1 < n | (pos, lsz) # st \<Rightarrow> \<not> lsz - pos < n"
    using assms(5) by (auto simp: can_read_def room_def split: list.splits)
  ultimately show ?thesis using assms(1,4)
    by (auto simp: Kind_def Let_def split: list.splits if_splits)
qed

text \<open>The state after \<open>Kind\<close> has read the header of a value.\<close>

definition peeked :: "rlp_kind \<Rightarrow> nat \<Rightarrow> byte \<Rightarrow> stream \<Rightarrow> stream" where
  "peeked k n b s = s\<lparr>s_byteval := b, s_kind := Some k, s_size := n, s_kinderr := None\<rparr>"

lemma Kind_byte:
  assumes "s_kind s = None" and "can_read 1 s" and "hd (s_input s) < 0x80"
  shows "Kind s = (Inr (KByte, 0), peeked KByte 0 (hd (s_input s)) (adv 1 s))"
proof -
  let ?s = "s\<lparr>s_kinderr := None\<rparr>"
  have "stream_readKind ?s = ((KByte, 0, None), (adv 1 ?s)\<lparr>s_byteval := hd (s_input s)\<rparr>)"
    using assms stream_readKind_byte [of ?s] by (simp add: can_read_def)
  moreover have "can_read 0 ((adv 1 ?s)\<lparr>s_byteval := hd (s_input s)\<rparr>)"
    using can_read_adv [of 1 0 s] assms(2) by (simp add: can_read_def adv_def)
  ultimately show ?thesis using Kind_fresh [OF assms(1,2)] by (simp add: peeked_def adv_def)
qed

lemma Kind_head:
  assumes "s_kind s = None" and "n < 2 ^ 64" and "s_input s = puthead a b (word_of_nat n) @ t"
    and "can_read (length (puthead a b (word_of_nat n)) + n) s"
    and "(a, b, k) = (0x80, 0xB7, KString) \<or> (a, b, k) = (0xC0, 0xF7, KList)"
  shows "Kind s = (Inr (k, n), peeked k n 0 (adv (length (puthead a b (word_of_nat n))) s))"
proof -
  let ?s = "s\<lparr>s_kinderr := None\<rparr>" and ?h = "length (puthead a b (word_of_nat n))"
  have h: "0 < ?h" by (simp add: length_puthead headsize_def)
  have "can_read ?h s" using assms(4) by (rule can_read_mono) simp
  then have "stream_readKind ?s = ((k, n, None), (adv ?h ?s)\<lparr>s_byteval := 0\<rparr>)"
    by (intro stream_readKind_head [OF assms(2) _ _ assms(5)]) (use assms(3) in \<open>simp_all add: can_read_def\<close>)
  from Kind_fresh [OF assms(1) \<open>can_read ?h s\<close> h this] can_read_adv [OF assms(4)] show ?thesis
    by (simp add: peeked_def adv_def can_read_def)
qed

lemma length_puthead_pos: "0 < length (puthead a b n)"
  by (simp add: length_puthead headsize_def)

text \<open>Reading a string value: every decoder of a string kind starts with one of two headers.\<close>

lemma Kind_enc_str:
  assumes "ready s (enc_str b @ rest) stk" and "length b < 2 ^ 64" and "room (length (enc_str b)) stk"
  obtains (byte) x s1 where "b = [x]" "x \<le> 0x7F" "Kind s = (Inr (KByte, 0), s1)" "s_byteval s1 = x"
      "s_kind s1 = Some KByte" "s_kinderr s1 = None" "s_size s1 = 0"
      "ready (s1\<lparr>s_kind := None\<rparr>) rest (bump (length (enc_str b)) stk)"
  | (string) s1 where "\<not> (length b = 1 \<and> hd b \<le> 0x7F)" "Kind s = (Inr (KString, length b), s1)"
      "can_read (length b) s1" "s_input s1 = b @ rest" "s_kind s1 = Some KString"
      "s_kinderr s1 = None" "s_size s1 = length b"
      "ready (adv (length b) s1) rest (bump (length (enc_str b)) stk)"
proof (cases "length b = 1 \<and> hd b \<le> 0x7F")
  case True
  then obtain x where x: "b = [x]" "x \<le> 0x7F" by (auto simp: length_Suc_conv)
  then have e: "enc_str b = [x]" by (simp add: enc_str_def)
  have "can_read 1 s" using assms e by (auto simp: ready_def can_read_def)
  moreover have "x < 0x80" using x(2) by (simp add: word_le_nat_alt word_less_nat_alt)
  ultimately have k: "Kind s = (Inr (KByte, 0), peeked KByte 0 x (adv 1 s))"
    using Kind_byte [of s] assms(1) e by (simp add: ready_def)
  show thesis
    by (rule byte [OF x k]) (use assms(1) e in \<open>simp_all add: peeked_def ready_def\<close>)
next
  case False
  let ?h = "puthead 0x80 0xB7 (word_of_nat (length b))"
  have e: "enc_str b = ?h @ b" using False by (auto simp: enc_str_def)
  have c: "can_read (length ?h + length b) s"
    using assms e by (auto simp: ready_def can_read_def)
  have k: "Kind s = (Inr (KString, length b), peeked KString (length b) 0 (adv (length ?h) s))"
    using assms(1) e c by (intro Kind_head [where t = "b @ rest"]) (use assms(2) in \<open>auto simp: ready_def\<close>)
  have c1: "can_read (length b) (peeked KString (length b) 0 (adv (length ?h) s))"
    using can_read_adv [OF c] by (simp add: can_read_def peeked_def)
  show thesis
    by (rule string [OF False k c1])
       (use assms(1) e in \<open>simp_all add: peeked_def ready_def adv_def\<close>)
qed

lemma stream_Bytes_enc:
  assumes "ready s (enc_str b @ rest) stk" and "length b < 2 ^ 64" and "room (length (enc_str b)) stk"
  shows "\<exists>s'. stream_Bytes s = (Inr b, s') \<and> ready s' rest (bump (length (enc_str b)) stk)"
  using assms
proof (cases rule: Kind_enc_str)
  case (byte x s1)
  then show ?thesis by (simp add: stream_Bytes_def sbind_def)
next
  case (string s1)
  have "\<not> (length b = 1 \<and> b ! 0 < 128)"
    using string(1) by (auto simp: length_Suc_conv word_le_nat_alt word_less_nat_alt)
  with string show ?thesis
    by (auto simp: stream_Bytes_def sbind_def readFull_ok sret_def)
qed

lemma stream_uint_enc:
  assumes "n < 256 ^ k" and "k \<le> 8"
    and "ready s (enc_str (nat_be n) @ rest) stk" and "room (length (enc_str (nat_be n))) stk"
  shows "\<exists>s'. stream_uint (8 * k) s = (Inr n, s') \<and> ready s' rest (bump (length (enc_str (nat_be n))) stk)"
proof -
  have lk: "length (nat_be n) \<le> k" using assms(1) by (simp only: length_nat_be_le)
  with assms(2) have l8: "length (nat_be n) \<le> 8" by simp
  then have "length (nat_be n) < 2 ^ 64" by (rule le_less_trans) simp
  from assms(3) this assms(4) show ?thesis
  proof (cases rule: Kind_enc_str)
    case (byte x s1)
    then have n: "unat x = n" using be_nat_nat_be [of n] by (simp add: be_nat_Cons)
    moreover have "n \<noteq> 0" using byte(1) nat_be_eq_Nil_iff [of n] by (metis list.distinct(1))
    then have "x \<noteq> 0" using n by auto
    ultimately show ?thesis using byte by (simp add: stream_uint_def sbind_def)
  next
    case (string s1)
    show ?thesis
    proof (cases "n = 0")
      case True
      with string show ?thesis
        by (simp add: stream_uint_def sbind_def smap_err_def readUint_def sret_def ready_def adv_def)
    next
      case False
      have ne: "nat_be n \<noteq> []" using False by simp
      have "readUint (length (nat_be n)) s1 = (Inr (be_nat (take (length (nat_be n)) (s_input s1))), adv (length (nat_be n)) s1)"
        by (rule readUint_ok [OF string(3)]) (use ne l8 string(4) hd_nat_be [OF False] in \<open>auto simp: Suc_le_eq\<close>)
      then have r: "readUint (length (nat_be n)) s1 = (Inr n, adv (length (nat_be n)) s1)"
        using string(4) by simp
      have "128 \<le> n"
      proof (rule ccontr)
        assume "\<not> 128 \<le> n"
        then have "nat_be n = [word_of_nat n]" using False by (intro nat_be_small) auto
        with string(1) \<open>\<not> 128 \<le> n\<close> show False by (simp add: word_le_nat_alt unat_of_nat)
      qed
      then show ?thesis using string r lk
        by (simp add: stream_uint_def sbind_def smap_err_def sret_def)
    qed
  qed
qed

text \<open>Entering and leaving a list.\<close>

lemma stream_List_enc:
  assumes "ready s (enc_list p @ rest) stk" and "length p < 2 ^ 64" and "room (length (enc_list p)) stk"
  shows "\<exists>s'. stream_List s = (Inr (length p), s')
    \<and> ready s' (p @ rest) ((0, length p) # bump (length (enc_list p) - length p) stk)"
proof -
  let ?h = "puthead 0xC0 0xF7 (word_of_nat (length p))"
  have e: "enc_list p = ?h @ p" by (simp add: enc_list_def)
  have c: "can_read (length ?h + length p) s"
    using assms e by (auto simp: ready_def can_read_def)
  have "Kind s = (Inr (KList, length p), peeked KList (length p) 0 (adv (length ?h) s))"
    using assms(1) e c by (intro Kind_head [where t = "p @ rest"]) (use assms(2) in \<open>auto simp: ready_def\<close>)
  then show ?thesis using assms(1) e
    by (simp add: stream_List_def sbind_def peeked_def ready_def adv_def)
qed

lemma ListEnd_ok:
  assumes "ready s rest ((n, n) # stk)"
  shows "\<exists>s'. ListEnd s = (Inr (), s') \<and> ready s' rest (bump n stk)"
  using assms by (auto simp: ListEnd_def ready_def bump_def split: list.splits)

lemma Kind_EOL: "ready s inp ((n, n) # stk) \<Longrightarrow> \<exists>s'. Kind s = (Inl EOL, s') \<and> ready s' inp ((n, n) # stk)"
  by (auto simp: Kind_def ready_def)

text \<open>
  \<open>decodes d x b\<close>: on a stream whose next value is encoded as \<open>b\<close>, the decoder \<open>d\<close>
  returns \<open>x\<close> and leaves the stream behind the value.  \<open>at_end d\<close>: at the end of the
  enclosing list it reports \<^verbatim>\<open>EOL\<close> and consumes nothing.
\<close>

definition decodes :: "'a sop \<Rightarrow> 'a \<Rightarrow> bytes \<Rightarrow> bool" where
  "decodes d x b \<longleftrightarrow> (\<forall>s rest stk. ready s (b @ rest) stk \<longrightarrow> room (length b) stk \<longrightarrow>
     (\<exists>s'. d s = (Inr x, s') \<and> ready s' rest (bump (length b) stk)))"

definition at_end :: "'a sop \<Rightarrow> bool" where
  "at_end d \<longleftrightarrow> (\<forall>s inp n stk. ready s inp ((n, n) # stk) \<longrightarrow>
     (\<exists>s'. d s = (Inl EOL, s') \<and> ready s' inp ((n, n) # stk)))"

lemma decodesD:
  assumes "decodes d x b" and "ready s (b @ rest) stk" and "room (length b) stk"
  obtains s' where "d s = (Inr x, s')" "ready s' rest (bump (length b) stk)"
  using assms unfolding decodes_def by blast

lemma decodes_sret [rlp_dec]: "decodes (sret x) x []"
  by (simp add: decodes_def sret_def)

lemma decodes_sbind:
  assumes "decodes d x b" and "decodes (f x) y c"
  shows "decodes (sbind d f) y (b @ c)"
  unfolding decodes_def
proof (intro allI impI)
  fix s rest stk assume r: "ready s ((b @ c) @ rest) stk" and m: "room (length (b @ c)) stk"
  from m have "room (length b) stk" by (rule room_mono) simp
  with r obtain s1 where s1: "d s = (Inr x, s1)" "ready s1 (c @ rest) (bump (length b) stk)"
    by (auto intro: decodesD [OF assms(1), of s "c @ rest" stk])
  moreover from m have "room (length c) (bump (length b) stk)" by (simp add: room_bump)
  ultimately obtain s2 where "f x s1 = (Inr y, s2)" "ready s2 rest (bump (length c) (bump (length b) stk))"
    by (auto intro: decodesD [OF assms(2), of s1 rest])
  with s1(1) show "\<exists>s'. sbind d f s = (Inr y, s') \<and> ready s' rest (bump (length (b @ c)) stk)"
    by (simp add: sbind_def)
qed

lemma decodes_smap_err [rlp_dec]: "decodes d x b \<Longrightarrow> decodes (smap_err g d) x b"
  unfolding decodes_def smap_err_def by (intro allI impI, elim allE impE, assumption+) auto

lemma decodes_struct_field [rlp_dec]: "decodes d x b \<Longrightarrow> decodes (struct_field typ d) x b"
  unfolding struct_field_def by (rule decodes_smap_err)

lemma at_end_Kind [rlp_dec]: "at_end Kind"
  using Kind_EOL by (auto simp: at_end_def)

lemma at_end_sbind [rlp_dec]: "at_end d \<Longrightarrow> at_end (sbind d f)"
  unfolding at_end_def sbind_def by (intro allI impI, elim allE impE, assumption) auto

lemma at_end_smap_err [rlp_dec]: "at_end d \<Longrightarrow> g EOL = EOL \<Longrightarrow> at_end (smap_err g d)"
  unfolding at_end_def smap_err_def by (intro allI impI, elim allE impE, assumption) auto

lemma wrapStreamError_EOL [simp]: "wrapStreamError typ EOL = EOL"
  by (simp add: wrapStreamError_def)

subsubsection \<open>Basic types\<close>

lemma decodes_stream_Bytes [rlp_dec]: "length b < 2 ^ 64 \<Longrightarrow> decodes stream_Bytes b (enc_str b)"
  unfolding decodes_def using stream_Bytes_enc by blast

lemma decodes_stream_uint:
  "n < 256 ^ k \<Longrightarrow> k \<le> 8 \<Longrightarrow> decodes (stream_uint (8 * k)) n (enc_str (nat_be n))"
  unfolding decodes_def using stream_uint_enc by blast

lemma at_end_stream_Bytes [rlp_dec]: "at_end stream_Bytes"
  unfolding stream_Bytes_def by (intro rlp_dec)

lemma at_end_stream_uint [rlp_dec]: "at_end (stream_uint m)"
  unfolding stream_uint_def by (intro rlp_dec)

lemma at_end_stream_List [rlp_dec]: "at_end stream_List"
  unfolding stream_List_def by (intro rlp_dec)

lemma decodes_decodeUint: "decodes decodeUint w (rlp_enc (RUint w))"
proof -
  have "decodes (stream_uint 64) (unat w) (enc_str (nat_be (unat w)))"
    using decodes_stream_uint [of "unat w" 8] unat64_less [of w] by simp
  from decodes_sbind [OF this, of "\<lambda>n. sret (word_of_nat n)" w "[]"] show ?thesis
    unfolding decodeUint_def by (intro decodes_smap_err) (simp add: decodes_sret)
qed

lemma decodes_decodeBool: "decodes decodeBool b (rlp_enc (RBool b))"
proof -
  let ?n = "if b then 1 else 0 :: nat"
  have e: "enc_str (nat_be ?n) = rlp_enc (RBool b)" by (simp add: nat_be_small)
  have "decodes (stream_uint 8) ?n (enc_str (nat_be ?n))"
    using decodes_stream_uint [of ?n 1] by simp
  from decodes_sbind [OF this, of "\<lambda>num. if num = 0 then sret False else if num = 1 then sret True
     else serr (Err ''rlp: invalid boolean value'')" b "[]"] show ?thesis
    unfolding decodeBool_def stream_Bool_def e by (intro decodes_smap_err) (simp add: decodes_sret)
qed

lemma decodes_decodeBigInt:
  assumes "0 \<le> i" and "length (big_Bytes i) < 2 ^ 64"
  shows "decodes decodeBigInt i (rlp_enc (RBig (Some i)))"
proof -
  have h: "\<not> (0 < length (big_Bytes i) \<and> big_Bytes i ! 0 = 0)"
    using hd_nat_be [of "nat \<bar>i\<bar>"] by (auto simp: big_Bytes_def hd_conv_nth)
  then have "decodes (if 0 < length (big_Bytes i) \<and> big_Bytes i ! 0 = 0 then serr ErrCanonInt
      else sret (big_SetBytes (big_Bytes i))) i []"
    using assms(1) by (simp only: if_False big_SetBytes_Bytes decodes_sret abs_of_nonneg)
  from decodes_sbind [OF decodes_stream_Bytes [OF assms(2)], of
      "\<lambda>b. if 0 < length b \<and> b ! 0 = 0 then serr ErrCanonInt else sret (big_SetBytes b)", OF this]
  show ?thesis unfolding decodeBigInt_def
    by (intro decodes_smap_err) simp
qed

lemma decodes_decodeByteSlice: "length b < 2 ^ 64 \<Longrightarrow> decodes decodeByteSlice b (rlp_enc (RBytes b))"
  unfolding decodeByteSlice_def by (simp add: decodes_smap_err decodes_stream_Bytes)

lemma decodes_decodeByteArray:
  assumes "length b < 2 ^ 64" and "1 < length b"
  shows "decodes (decodeByteArray (length b) typ) b (rlp_enc (RBytes b))"
  unfolding decodes_def rlp_enc.simps
proof (intro allI impI)
  fix s rest stk assume "ready s (enc_str b @ rest) stk" "room (length (enc_str b)) stk"
  from this(1) assms(1) this(2) show "\<exists>s'. decodeByteArray (length b) typ s = (Inr b, s') \<and> ready s' rest (bump (length (enc_str b)) stk)"
  proof (cases rule: Kind_enc_str)
    case (byte x s1)
    with assms(2) show ?thesis by simp
  next
    case (string s1)
    with assms(2) show ?thesis
      by (auto simp: decodeByteArray_def sbind_def readFull_ok sret_def)
  qed
qed

lemma at_end_decoders [rlp_dec]:
  "at_end decodeUint" "at_end decodeBool" "at_end decodeBigInt" "at_end decodeByteSlice"
  "at_end (decodeByteArray n typ)" "at_end (decodeListSlice typ d)" "at_end (structDecoder typ d)"
  unfolding decodeUint_def decodeBool_def stream_Bool_def decodeBigInt_def decodeByteSlice_def
    decodeByteArray_def decodeListSlice_def structDecoder_def
  by (simp_all add: rlp_dec)

subsubsection \<open>Slices and structs\<close>

lemma structDecoder_decodes:
  assumes "decodes flds x p" and "length p < 2 ^ 64"
  shows "decodes (structDecoder typ flds) x (enc_list p)"
  unfolding decodes_def
proof (intro allI impI)
  fix s rest stk assume r: "ready s (enc_list p @ rest) stk" and m: "room (length (enc_list p)) stk"
  obtain s1 where s1: "stream_List s = (Inr (length p), s1)"
      "ready s1 (p @ rest) ((0, length p) # bump (length (enc_list p) - length p) stk)"
    using stream_List_enc [OF r assms(2) m] by blast
  have "room (length p) ((0, length p) # bump (length (enc_list p) - length p) stk)" by (simp add: room_def)
  with s1(2) obtain s2 where s2: "flds s1 = (Inr x, s2)"
      "ready s2 rest ((length p, length p) # bump (length (enc_list p) - length p) stk)"
    by (auto elim!: decodesD [OF assms(1)] simp: bump_def)
  obtain s3 where s3: "ListEnd s2 = (Inr (), s3)" "ready s3 rest (bump (length (enc_list p)) stk)"
    using ListEnd_ok [OF s2(2)] length_enc_list_ge [of p] by auto
  with s1 s2 show "\<exists>s'. structDecoder typ flds s = (Inr x, s') \<and> ready s' rest (bump (length (enc_list p)) stk)"
    by (auto simp: structDecoder_def sbind_def smap_err_def sret_def)
qed

lemma decodeSliceElems_enc:
  assumes "\<And>x. x \<in> set xs \<Longrightarrow> decodes d x (e x)" and "at_end d"
    and "ready s (concat (map e xs) @ rest) ((p, n) # stk)"
    and "p + length (concat (map e xs)) = n" and "length xs < k"
  shows "\<exists>s'. decodeSliceElems k d s = (Inr xs, s') \<and> ready s' rest ((n, n) # stk)"
  using assms(1,3-5)
proof (induction xs arbitrary: s p k)
  case Nil
  then obtain k' where "k = Suc k'" by (cases k) auto
  moreover obtain s' where "d s = (Inl EOL, s')" "ready s' rest ((n, n) # stk)"
    using Nil(2,3) assms(2) unfolding at_end_def by force
  ultimately show ?case by simp
next
  case (Cons x xs)
  then obtain k' where k: "k = Suc k'" by (cases k) auto
  obtain s1 where s1: "d s = (Inr x, s1)" "ready s1 (concat (map e xs) @ rest) ((p + length (e x), n) # stk)"
    using Cons.prems(2,3) decodesD [OF Cons.prems(1) [of x], of s "concat (map e xs) @ rest" "(p, n) # stk"]
    by (auto simp: room_def bump_def)
  with Cons.IH [of s1 "p + length (e x)" k'] Cons.prems k show ?case by auto
qed

lemma decodeListSlice_decodes:
  assumes "\<And>x. x \<in> set xs \<Longrightarrow> decodes d x (e x)" and "\<And>x. e x \<noteq> []" and "at_end d"
    and "length (concat (map e xs)) < 2 ^ 64"
  shows "decodes (decodeListSlice typ d) xs (enc_list (concat (map e xs)))"
  unfolding decodes_def
proof (intro allI impI)
  let ?p = "concat (map e xs)"
  fix s rest stk assume r: "ready s (enc_list ?p @ rest) stk" and m: "room (length (enc_list ?p)) stk"
  have lx: "length xs \<le> length ?p"
  proof (induction xs)
    case (Cons x xs)
    with assms(2) [of x] show ?case by (cases "e x") auto
  qed simp
  obtain s1 where s1: "stream_List s = (Inr (length ?p), s1)"
      "ready s1 (?p @ rest) ((0, length ?p) # bump (length (enc_list ?p) - length ?p) stk)"
    using stream_List_enc [OF r assms(4) m] by blast
  have "\<exists>s2. decodeSliceElems (Suc (length (s_input s1))) d s1 = (Inr xs, s2)
      \<and> ready s2 rest ((length ?p, length ?p) # bump (length (enc_list ?p) - length ?p) stk)"
    using s1(2) lx by (intro decodeSliceElems_enc [where e = e] assms) (auto simp: ready_def)
  then obtain s2 where s2: "decodeSliceElems (Suc (length (s_input s1))) d s1 = (Inr xs, s2)"
      "ready s2 rest ((length ?p, length ?p) # bump (length (enc_list ?p) - length ?p) stk)" by blast
  obtain s3 where s3: "ListEnd s2 = (Inr (), s3)" "ready s3 rest (bump (length (enc_list ?p)) stk)"
    using ListEnd_ok [OF s2(2)] length_enc_list_ge [of ?p] by auto
  show "\<exists>s'. decodeListSlice typ d s = (Inr xs, s') \<and> ready s' rest (bump (length (enc_list ?p)) stk)"
  proof (cases "?p = []")
    case True
    then have x: "xs = []" using assms(2) by (cases xs) auto
    obtain s4 where "ListEnd s1 = (Inr (), s4)" "ready s4 rest (bump (length (enc_list ?p)) stk)"
      using ListEnd_ok [of s1 rest 0 "bump (length (enc_list ?p) - length ?p) stk"] s1(2) x by auto
    with s1(1) x show ?thesis by (auto simp: decodeListSlice_def sbind_def smap_err_def sret_def)
  next
    case False
    then have "length ?p \<noteq> 0" by simp
    with s1 s2 s3 show ?thesis
      by (auto simp: decodeListSlice_def sbind_def smap_err_def sret_def simp del: length_concat decodeSliceElems.simps)
  qed
qed

text \<open>Every value of a stored type is written and read back by the package.\<close>

locale rlp_codec =
  fixes enc :: "'a \<Rightarrow> rlp_val" and dec :: "'a sop" and storable :: "'a \<Rightarrow> bool"
  assumes enc_encodable: "storable x \<Longrightarrow> encodable (enc x)"
    and dec_enc: "storable x \<Longrightarrow> length (rlp_enc (enc x)) < 2 ^ 64 \<Longrightarrow> decodes dec x (rlp_enc (enc x))"
    and dec_end: "at_end dec"
begin

lemma decode_encoded:
  assumes "storable x" and "length (rlp_enc (enc x)) < 2 ^ 64"
  shows "EncodeToBytes (enc x) = Inr (rlp_enc (enc x))" "DecodeBytes dec (rlp_enc (enc x)) = Inr x"
proof -
  show "EncodeToBytes (enc x) = Inr (rlp_enc (enc x))"
    by (rule EncodeToBytes_rlp_enc [OF enc_encodable [OF assms(1)] assms(2)])
  have "ready (NewStream (rlp_enc (enc x))) (rlp_enc (enc x) @ []) []" by (simp add: ready_def NewStream_def)
  moreover have "room (length (rlp_enc (enc x))) []" by (simp add: room_def)
  ultimately obtain s' where "dec (NewStream (rlp_enc (enc x))) = (Inr x, s')" "s_input s' = []"
    by (rule decodesD [OF dec_enc [OF assms]]) (simp add: ready_def)
  then show "DecodeBytes dec (rlp_enc (enc x)) = Inr x" by (simp add: DecodeBytes_def)
qed

lemma EncodeToBytes_inj:
  assumes "storable x" "length (rlp_enc (enc x)) < 2 ^ 64"
    and "storable y" "length (rlp_enc (enc y)) < 2 ^ 64"
    and "EncodeToBytes (enc x) = EncodeToBytes (enc y)"
  shows "x = y"
proof -
  have "rlp_enc (enc x) = rlp_enc (enc y)"
    using assms(5) unfolding decode_encoded(1) [OF assms(1,2)] decode_encoded(1) [OF assms(3,4)] by (rule sum.inject(2) [THEN iffD1])
  then show ?thesis
    using decode_encoded(2) [OF assms(1,2)] decode_encoded(2) [OF assms(3,4)] by (metis sum.inject(2))
qed

end

lemma rlp_enc_nonempty [simp]: "rlp_enc v \<noteq> []"
proof -
  obtain c where "rlp_enc v = enc_str c \<or> rlp_enc v = enc_list c" using rlp_enc_shape by blast
  then show ?thesis using length_puthead_pos by (auto simp: enc_str_def enc_list_def split: if_splits)
qed

lemma length_concat_ge: "x \<in> set xs \<Longrightarrow> length (e x) \<le> length (concat (map e xs))"
  by (induction xs) auto

locale rlp_slice = rlp_codec +
  fixes tyn :: string

sublocale rlp_slice \<subseteq> slice: rlp_codec "\<lambda>xs. RList (map enc xs)" "decodeListSlice tyn dec" "list_all storable"
proof
  show "list_all storable xs \<Longrightarrow> encodable (RList (map enc xs))" for xs
    by (auto simp: list_all_iff enc_encodable)
next
  fix xs assume s: "list_all storable xs" and l: "length (rlp_enc (RList (map enc xs))) < 2 ^ 64"
  let ?e = "\<lambda>x. rlp_enc (enc x)"
  have m: "map rlp_enc (map enc xs) = map ?e xs" by simp
  have lc: "length (concat (map ?e xs)) < 2 ^ 64"
    using l length_enc_list_ge [of "concat (map ?e xs)"] by (simp only: rlp_enc.simps m)
  have "decodes (decodeListSlice tyn dec) xs (enc_list (concat (map ?e xs)))"
  proof (rule decodeListSlice_decodes [OF _ rlp_enc_nonempty dec_end lc])
    fix x assume x: "x \<in> set xs"
    then have "length (?e x) < 2 ^ 64" using length_concat_ge [OF x, of ?e] lc by linarith
    then show "decodes dec x (?e x)" using s x by (intro dec_enc) (auto simp: list_all_iff)
  qed
  then show "decodes (decodeListSlice tyn dec) xs (rlp_enc (RList (map enc xs)))"
    by (simp only: rlp_enc.simps m)
next
  show "at_end (decodeListSlice tyn dec)" by (rule at_end_decoders)
qed

interpretation uint64_codec: rlp_codec RUint decodeUint "\<lambda>_. True"
  by unfold_locales (simp_all add: decodes_decodeUint at_end_decoders del: rlp_enc.simps)

interpretation bool_codec: rlp_codec RBool decodeBool "\<lambda>_. True"
  by unfold_locales (simp_all add: decodes_decodeBool at_end_decoders del: rlp_enc.simps)

interpretation big_codec: rlp_codec "\<lambda>i. RBig (Some i)" decodeBigInt "\<lambda>i. 0 \<le> i"
proof
  fix i :: int assume "0 \<le> i" "length (rlp_enc (RBig (Some i))) < 2 ^ 64"
  then show "decodes decodeBigInt i (rlp_enc (RBig (Some i)))"
    using length_enc_str_ge [of "big_Bytes i"] by (intro decodes_decodeBigInt) auto
qed (simp_all add: at_end_decoders)

interpretation bytes_codec: rlp_codec RBytes decodeByteSlice "\<lambda>_. True"
proof
  fix b :: bytes assume "length (rlp_enc (RBytes b)) < 2 ^ 64"
  then show "decodes decodeByteSlice b (rlp_enc (RBytes b))"
    using length_enc_str_ge [of b] by (intro decodes_decodeByteSlice) auto
qed (simp_all add: at_end_decoders)

fun stack_ok :: "(nat \<times> nat) list \<Rightarrow> bool" where
  "stack_ok [] = True"
| "stack_ok ((p, z) # st) =
     (p \<le> z \<and> (case st of [] \<Rightarrow> True | (q, y) # _ \<Rightarrow> q + z \<le> y) \<and> stack_ok st)"

definition stream_inv :: "stream \<Rightarrow> bool" where
  "stream_inv s \<longleftrightarrow> stack_ok (s_stack s) \<and>
     (s_kind s \<noteq> None \<longrightarrow> s_kinderr s = None \<longrightarrow> room (s_size s) (s_stack s))"

definition keeps_inv :: "'a sop \<Rightarrow> bool" where
  "keeps_inv op \<longleftrightarrow> (\<forall>s. stream_inv s \<longrightarrow> stream_inv (snd (op s)))"

lemma stack_ok_bump: "stack_ok stk \<Longrightarrow> room n stk \<Longrightarrow> stack_ok (bump n stk)"
  by (cases stk rule: stack_ok.cases) (auto simp: bump_def room_def split: list.splits)

lemma keeps_inv_sbind [rlp_inv]:
  assumes "keeps_inv m" and "\<And>x. keeps_inv (f x)"
  shows "keeps_inv (sbind m f)"
  unfolding keeps_inv_def sbind_def
proof (intro allI impI)
  fix s assume "stream_inv s"
  then have "stream_inv (snd (m s))" using assms(1) by (simp add: keeps_inv_def)
  then show "stream_inv (snd (case m s of (Inl e, s') \<Rightarrow> (Inl e, s') | (Inr x, s') \<Rightarrow> f x s'))"
    using assms(2) by (auto simp: keeps_inv_def split: prod.splits sum.splits)
qed

lemma keeps_inv_smap_err [rlp_inv]: "keeps_inv m \<Longrightarrow> keeps_inv (smap_err g m)"
  by (auto simp: keeps_inv_def smap_err_def split: prod.splits sum.splits)

lemma keeps_inv_ret [rlp_inv]: "keeps_inv (sret x)" "keeps_inv (serr e)"
  by (simp_all add: keeps_inv_def sret_def serr_def)

lemma keeps_inv_if [rlp_inv]: "keeps_inv a \<Longrightarrow> keeps_inv b \<Longrightarrow> keeps_inv (if c then a else b)"
  by simp

lemma willRead_kind: "s_kind (snd (willRead n s)) = None" "s_input (snd (willRead n s)) = s_input s"
  by (simp_all add: willRead_def Let_def split: list.splits prod.splits)

lemma willRead_inv:
  assumes "stack_ok (s_stack s)"
  shows "stack_ok (s_stack (snd (willRead n s)))"
proof (cases "s_stack s")
  case Nil
  then show ?thesis by (simp add: willRead_def Let_def)
next
  case (Cons a st)
  obtain p z where a: "a = (p, z)" by fastforce
  show ?thesis
  proof (cases "z - p < n")
    case True
    with Cons a assms show ?thesis by (simp add: willRead_def Let_def)
  next
    case False
    have "p \<le> z" using Cons a assms by simp
    with False Cons a have "room n (s_stack s)" by (simp add: room_def)
    with assms have "stack_ok (bump n (s_stack s))" by (rule stack_ok_bump)
    moreover have "s_stack (snd (willRead n s)) = bump n (s_stack s)"
      using False Cons a by (simp add: willRead_def Let_def bump_def)
    ultimately show ?thesis by simp
  qed
qed

lemma readFull_kind:
  shows "s_kind (snd (readFull n s)) = None"
    and "stack_ok (s_stack s) \<Longrightarrow> stack_ok (s_stack (snd (readFull n s)))"
    and "length (s_input (snd (readFull n s))) \<le> length (s_input s)"
  using willRead_kind [where n = n and s = s] willRead_inv [of s n]
  by (auto simp: readFull_def sbind_def split: prod.splits sum.splits)

lemma readByte_kind:
  shows "s_kind (snd (readByte s)) = None"
    and "stack_ok (s_stack s) \<Longrightarrow> stack_ok (s_stack (snd (readByte s)))"
    and "length (s_input (snd (readByte s))) \<le> length (s_input s)"
  using willRead_kind [where n = 1 and s = s] willRead_inv [of s 1]
  by (cases "s_input s"; auto simp: readByte_def sbind_def split: prod.splits sum.splits)+

lemma readUint_kind: "n \<le> 8 \<Longrightarrow> s_kind (snd (readUint n s)) = None"
    "stack_ok (s_stack s) \<Longrightarrow> stack_ok (s_stack (snd (readUint n s)))"
    "length (s_input (snd (readUint n s))) \<le> length (s_input s)"
  using readFull_kind [where n = n and s = s] readByte_kind [where s = s]
  by (auto simp: readUint_def sbind_def sret_def serr_def split: prod.splits sum.splits)

lemma readByte_less: "readByte s = (Inr b, s') \<Longrightarrow> length (s_input s') < length (s_input s)"
  using willRead_kind(2) [where n = 1 and s = s]
  by (cases "s_input s") (auto simp: readByte_def sbind_def split: prod.splits sum.splits)

lemma stream_readKind_kind:
  "stack_ok (s_stack s) \<Longrightarrow> stack_ok (s_stack (snd (stream_readKind s)))"
  "length (s_input (snd (stream_readKind s))) \<le> length (s_input s)"
  "stream_readKind s = ((k, n, None), s') \<Longrightarrow> length (s_input s') < length (s_input s)"
proof -
  have s: "stack_ok (s_stack t) \<Longrightarrow> stack_ok (s_stack (snd (readUint n (t\<lparr>s_byteval := 0\<rparr>))))"
      "length (s_input (snd (readUint n (t\<lparr>s_byteval := 0\<rparr>)))) \<le> length (s_input t)" for n t
    using readUint_kind(2,3) [where s = "t\<lparr>s_byteval := 0\<rparr>" and n = n] by simp_all
  show "stack_ok (s_stack s) \<Longrightarrow> stack_ok (s_stack (snd (stream_readKind s)))"
    using readByte_kind(2) [of s] s(1)
    by (auto simp: stream_readKind_def Let_def split: prod.split sum.split) (metis snd_conv)+
  show "length (s_input (snd (stream_readKind s))) \<le> length (s_input s)"
    using readByte_kind(3) [of s] s(2)
    by (auto simp: stream_readKind_def Let_def split: prod.split sum.split) (metis le_trans snd_conv)+
  show "stream_readKind s = ((k, n, None), s') \<Longrightarrow> length (s_input s') < length (s_input s)"
    using readByte_less [of s] s(2)
    by (auto simp: stream_readKind_def Let_def split: prod.splits sum.splits if_splits) (metis le_less_trans snd_conv)+
qed

lemma Kind_inv [rlp_inv]: "keeps_inv Kind"
  unfolding keeps_inv_def
proof (intro allI impI)
  fix s assume i: "stream_inv s"
  obtain k n e s1 where r: "stream_readKind (s\<lparr>s_kinderr := None\<rparr>) = ((k, n, e), s1)"
    by (metis prod.collapse)
  then have "stack_ok (s_stack s1)"
    using stream_readKind_kind(1) [of "s\<lparr>s_kinderr := None\<rparr>"] i by (simp add: stream_inv_def)
  with i r show "stream_inv (snd (Kind s))"
    by (auto simp: Kind_def stream_inv_def Let_def room_def split: option.splits list.splits if_splits)
qed

lemma stream_List_inv [rlp_inv]: "keeps_inv stream_List"
proof -
  have "stream_inv (snd (stream_List s))" if "stream_inv s" for s
  proof -
    obtain r s1 where k: "Kind s = (r, s1)" by fastforce
    have "stream_inv s1" using Kind_inv that k unfolding keeps_inv_def by (metis snd_conv)
    moreover have "s_kind s1 = Some kd \<and> s_size s1 = n \<and> s_kinderr s1 = None" if "r = Inr (kd, n)" for kd n
      using k that by (auto simp: Kind_def Let_def split: option.splits if_splits prod.splits)
    ultimately have "stack_ok ((0, n) # s_stack s1)" if "r = Inr (kd, n)" for kd n
      using that by (cases "s_stack s1") (auto simp: stream_inv_def room_def)
    with \<open>stream_inv s1\<close> show ?thesis
      by (cases r) (auto simp: stream_List_def sbind_def k stream_inv_def simp del: stack_ok.simps)
  qed
  then show ?thesis by (simp add: keeps_inv_def)
qed

lemma ListEnd_inv [rlp_inv]: "keeps_inv ListEnd"
  by (auto simp: keeps_inv_def ListEnd_def stream_inv_def split: list.splits prod.splits)

lemma stream_inv_None: "s_kind s = None \<Longrightarrow> stream_inv s \<longleftrightarrow> stack_ok (s_stack s)"
  by (simp add: stream_inv_def)

lemma readFull_inv [rlp_inv]: "keeps_inv (readFull n)"
  using readFull_kind by (simp add: keeps_inv_def stream_inv_None) (simp add: stream_inv_def)

lemma readUint_inv [rlp_inv]: "keeps_inv (readUint n)"
proof (cases "n \<le> 8")
  case True
  then show ?thesis using readUint_kind by (simp add: keeps_inv_def stream_inv_None) (simp add: stream_inv_def)
next
  case False
  then show ?thesis by (simp add: keeps_inv_def readUint_def serr_def)
qed

lemma reset_kind_inv [rlp_inv]: "keeps_inv (\<lambda>s. (r s, s\<lparr>s_kind := None\<rparr>))"
  by (simp add: keeps_inv_def stream_inv_def)

lemma case_kind_inv [rlp_inv]:
  "keeps_inv a \<Longrightarrow> keeps_inv b \<Longrightarrow> keeps_inv c \<Longrightarrow>
   keeps_inv (case k of KByte \<Rightarrow> a | KString \<Rightarrow> b | KList \<Rightarrow> c)"
  by (cases k) simp_all

lemma case_prod_inv [rlp_inv]: "(\<And>a b. keeps_inv (f a b)) \<Longrightarrow> keeps_inv (case p of (a, b) \<Rightarrow> f a b)"
  by (cases p) simp

lemma stream_methods_inv [rlp_inv]:
  "keeps_inv stream_Bytes" "keeps_inv stream_Raw" "keeps_inv (stream_uint n)" "keeps_inv stream_Bool"
proof -
  show "keeps_inv stream_Bytes" "keeps_inv stream_Raw"
    unfolding stream_Bytes_def stream_Raw_def by (intro rlp_inv)+
  have "keeps_inv (\<lambda>s. if s_byteval s = 0 then (Inl ErrCanonInt, s)
                      else (Inr (unat (s_byteval s)), s\<lparr>s_kind := None\<rparr>))"
    by (simp add: keeps_inv_def stream_inv_def)
  then show "keeps_inv (stream_uint n)" for n
    unfolding stream_uint_def by (intro rlp_inv)
  then show "keeps_inv stream_Bool"
    unfolding stream_Bool_def by (intro rlp_inv)
qed

text \<open>
  \<open>progress d\<close>: a successful call of \<open>d\<close> on a stream with no value announced consumes
  input and leaves no value announced.  It is what bounds the loop of \<open>decodeSliceElems\<close>.
\<close>

definition shrinks :: "'a sop \<Rightarrow> bool" where
  "shrinks d \<longleftrightarrow> (\<forall>s x s'. d s = (Inr x, s') \<longrightarrow>
     s_kind s' = None \<and> length (s_input s') \<le> length (s_input s))"

definition progress :: "'a sop \<Rightarrow> bool" where
  "progress d \<longleftrightarrow> (\<forall>s x s'. s_kind s = None \<longrightarrow> d s = (Inr x, s') \<longrightarrow>
     s_kind s' = None \<and> length (s_input s') < length (s_input s))"

lemma decodeSliceElems_enough:
  assumes "progress d" and "s_kind s = None" and "length (s_input s) < n" and "length (s_input s) < m"
  shows "decodeSliceElems n d s = decodeSliceElems m d s"
  using assms(2-)
proof (induction n arbitrary: m s)
  case (Suc n)
  then obtain m' where m: "m = Suc m'" by (cases m) auto
  obtain r s1 where d: "d s = (r, s1)" by fastforce
  show ?case
  proof (cases r)
    case (Inr x)
    with d have "d s = (Inr x, s1)" by simp
    with assms(1) Suc.prems(1) have "s_kind s1 = None" "length (s_input s1) < length (s_input s)"
      unfolding progress_def by blast+
    then have "decodeSliceElems n d s1 = decodeSliceElems m' d s1"
      using Suc.prems m by (intro Suc.IH) auto
    then show ?thesis using m d Inr by simp
  qed (use m d in simp)
qed simp

lemma Kind_less:
  "s_kind s = None \<Longrightarrow> Kind s = (Inr x, s1) \<Longrightarrow> length (s_input s1) < length (s_input s)"
  using stream_readKind_kind(3) [where s = "s\<lparr>s_kinderr := None\<rparr>"]
  by (auto simp: Kind_def Let_def split: prod.splits option.splits if_splits)

definition steady :: "'a sop \<Rightarrow> bool" where
  "steady d \<longleftrightarrow> (\<forall>s x s'. s_kind s = None \<longrightarrow> d s = (Inr x, s') \<longrightarrow>
     s_kind s' = None \<and> length (s_input s') \<le> length (s_input s))"

lemma sbind_Inr_iff: "sbind m f s = (Inr y, s') \<longleftrightarrow> (\<exists>x s1. m s = (Inr x, s1) \<and> f x s1 = (Inr y, s'))"
  by (auto simp: sbind_def split: prod.splits sum.splits)

lemma progress_Kind:
  assumes "\<And>x. shrinks (f x)"
  shows "progress (sbind Kind f)"
  unfolding progress_def sbind_Inr_iff
proof (intro allI impI, elim exE conjE)
  fix s y s' x s1 assume "s_kind s = None" "Kind s = (Inr x, s1)" "f x s1 = (Inr y, s')"
  moreover from assms [of x] this(3) have "s_kind s' = None \<and> length (s_input s') \<le> length (s_input s1)"
    unfolding shrinks_def by blast
  ultimately show "s_kind s' = None \<and> length (s_input s') < length (s_input s)"
    using Kind_less [of s x s1] by linarith
qed

lemma progress_sbind:
  assumes "progress m" and "\<And>x. steady (f x)"
  shows "progress (sbind m f)"
  unfolding progress_def sbind_Inr_iff
proof (intro allI impI, elim exE conjE)
  fix s y s' x s1 assume k: "s_kind s = None" and m: "m s = (Inr x, s1)" and f: "f x s1 = (Inr y, s')"
  from assms(1) k m have 1: "s_kind s1 = None" "length (s_input s1) < length (s_input s)"
    unfolding progress_def by blast+
  from assms(2) [of x] 1(1) f have "s_kind s' = None" "length (s_input s') \<le> length (s_input s1)"
    unfolding steady_def by blast+
  with 1 show "s_kind s' = None \<and> length (s_input s') < length (s_input s)" by linarith
qed

lemma smap_err_Inr_iff: "smap_err g m s = (Inr x, s') \<longleftrightarrow> m s = (Inr x, s')"
  by (auto simp: smap_err_def split: prod.splits sum.splits)

lemma progress_smap_err: "progress m \<Longrightarrow> progress (smap_err g m)"
  unfolding progress_def smap_err_Inr_iff .

lemma steady_ret: "steady (sret x)" "steady (serr e)"
  by (auto simp: steady_def sret_def serr_def)

lemma steady_if: "steady a \<Longrightarrow> steady b \<Longrightarrow> steady (if c then a else b)"
  by simp

lemma steady_sbind:
  assumes "steady m" and "\<And>x. steady (f x)"
  shows "steady (sbind m f)"
  unfolding steady_def sbind_Inr_iff
proof (intro allI impI, elim exE conjE)
  fix s y s' x s1 assume k: "s_kind s = None" and m: "m s = (Inr x, s1)" and f: "f x s1 = (Inr y, s')"
  from assms(1) k m have 1: "s_kind s1 = None" "length (s_input s1) \<le> length (s_input s)"
    unfolding steady_def by blast+
  from assms(2) [of x] 1(1) f have "s_kind s' = None" "length (s_input s') \<le> length (s_input s1)"
    unfolding steady_def by blast+
  with 1 show "s_kind s' = None \<and> length (s_input s') \<le> length (s_input s)" by linarith
qed

lemma shrinks_sbind:
  assumes "shrinks m" and "\<And>x. steady (f x)"
  shows "shrinks (sbind m f)"
  unfolding shrinks_def sbind_Inr_iff
proof (intro allI impI, elim exE conjE)
  fix s y s' x s1 assume m: "m s = (Inr x, s1)" and f: "f x s1 = (Inr y, s')"
  from assms(1) m have 1: "s_kind s1 = None" "length (s_input s1) \<le> length (s_input s)"
    unfolding shrinks_def by blast+
  from assms(2) [of x] 1(1) f have "s_kind s' = None" "length (s_input s') \<le> length (s_input s1)"
    unfolding steady_def by blast+
  with 1 show "s_kind s' = None \<and> length (s_input s') \<le> length (s_input s)" by linarith
qed

lemma shrinks_basic:
  "shrinks (readFull n)" "shrinks (serr e)" "shrinks (\<lambda>s. (Inr (g s), s\<lparr>s_kind := None\<rparr>))"
  "n \<le> 8 \<Longrightarrow> shrinks (readUint n)" 
  "shrinks d \<Longrightarrow> shrinks (smap_err h d)"
proof -
  show "shrinks (readFull n)" using readFull_kind(1,3) unfolding shrinks_def by (metis snd_conv)
  show "n \<le> 8 \<Longrightarrow> shrinks (readUint n)" using readUint_kind(1,3) unfolding shrinks_def by (metis snd_conv)
  show "shrinks d \<Longrightarrow> shrinks (smap_err h d)"
    unfolding shrinks_def smap_err_Inr_iff .
qed (simp_all add: shrinks_def serr_def)

lemma progress_stream_Bytes: "progress stream_Bytes"
  unfolding stream_Bytes_def
proof (rule progress_Kind)
  fix x :: "rlp_kind \<times> nat"
  obtain k sz where "x = (k, sz)" by fastforce
  then show "shrinks (case x of (k, sz) \<Rightarrow> case k of
       KByte \<Rightarrow> (\<lambda>s. (Inr [s_byteval s], s\<lparr>s_kind := None\<rparr>))
     | KString \<Rightarrow> sbind (readFull sz) (\<lambda>b.
         if sz = 1 \<and> b ! 0 < 128 then serr ErrCanonSize else sret b)
     | KList \<Rightarrow> serr ErrExpectedString)"
    by (cases k) (simp_all add: shrinks_basic shrinks_sbind steady_ret steady_if)
qed

lemma progress_stream_uint:
  assumes "n \<le> 64"
  shows "progress (stream_uint n)"
  unfolding stream_uint_def
proof (rule progress_Kind)
  fix x :: "rlp_kind \<times> nat"
  obtain k sz where x: "x = (k, sz)" by fastforce
  have "shrinks (\<lambda>s. if s_byteval s = 0 then (Inl ErrCanonInt, s)
                      else (Inr (unat (s_byteval s)), s\<lparr>s_kind := None\<rparr>))"
    by (simp add: shrinks_def)
  moreover have "shrinks (if n div 8 < sz then serr errUintOverflow
         else sbind (smap_err (\<lambda>e. if e = ErrCanonSize then ErrCanonInt else e) (readUint sz))
                (\<lambda>v. if 0 < sz \<and> v < 128 then serr ErrCanonSize else sret v))"
    using assms by (cases "n div 8 < sz") (simp_all add: shrinks_basic shrinks_sbind steady_ret steady_if)
  ultimately show "shrinks (case x of (k, sz) \<Rightarrow> case k of
       KByte \<Rightarrow> (\<lambda>s. if s_byteval s = 0 then (Inl ErrCanonInt, s)
                      else (Inr (unat (s_byteval s)), s\<lparr>s_kind := None\<rparr>))
     | KString \<Rightarrow>
         if n div 8 < sz then serr errUintOverflow
         else sbind (smap_err (\<lambda>e. if e = ErrCanonSize then ErrCanonInt else e) (readUint sz))
                (\<lambda>v. if 0 < sz \<and> v < 128 then serr ErrCanonSize else sret v)
     | KList \<Rightarrow> serr ErrExpectedString)"
    by (cases k) (simp_all add: x shrinks_basic)
qed

lemma progress_structDecoder:
  assumes "steady flds"
  shows "progress (structDecoder typ flds)"
proof -
  have "progress stream_List"
    unfolding stream_List_def by (rule progress_Kind) (auto simp: shrinks_def split: if_splits)
  moreover have "steady (smap_err g ListEnd)" for g
    by (auto simp: steady_def smap_err_def ListEnd_def split: list.splits if_splits)
  ultimately show ?thesis unfolding structDecoder_def
    by (intro progress_sbind progress_smap_err steady_sbind assms steady_ret)
qed

section \<open>Properties\<close>




end
