(* ===== verification/State_DB.thy ===== *)
theory State_DB
  imports Rlp_Stream
begin

text \<open>
  Package \<^verbatim>\<open>core/state\<close>: the state database with its account objects
  (\<^verbatim>\<open>statedb.go\<close>, \<^verbatim>\<open>state_object.go\<close>) and the journal behind
  \<^verbatim>\<open>Snapshot\<close> and \<^verbatim>\<open>RevertToSnapshot\<close> (\<^verbatim>\<open>journal.go\<close>).

  Tries and the database are reached through the interfaces of \<^verbatim>\<open>database.go\<close>: an opened
  trie is the function its \<^verbatim>\<open>TryGet\<close> computes, which may fail on a missing node, and the
  record \<open>database\<close> collects the functions that open tries, read code and hash; they are
  parameters of every operation that uses them.

  A \<^verbatim>\<open>*stateObject\<close> that is reachable is the one the map \<open>stateObjects\<close> holds under
  its address, so the map holds the objects themselves; a method of an object that also changes its
  database works on the pair of both.  The field \<^verbatim>\<open>onDirty\<close> is nil or the callback
  \<^verbatim>\<open>MarkStateObjectDirty\<close>, hence a truth value.  Getters return the state too: they load
  objects and fill caches.
\<close>

subsection \<open>Tries and the database\<close>

type_synonym 'k trie_fun = "'k \<Rightarrow> bytes result"

definition TryGet :: "'k trie_fun \<Rightarrow> 'k \<Rightarrow> bytes result" where
  "TryGet t k = t k"

definition TryUpdate :: "'k \<Rightarrow> bytes \<Rightarrow> 'k trie_fun \<Rightarrow> go_error option \<times> 'k trie_fun" where
  "TryUpdate k v t = (case t k of Inl e \<Rightarrow> (Some e, t) | Inr _ \<Rightarrow> (None, t(k := Inr v)))"

definition TryDelete :: "'k \<Rightarrow> 'k trie_fun \<Rightarrow> go_error option \<times> 'k trie_fun" where
  "TryDelete k t = TryUpdate k [] t"

record database =
  OpenTrie :: "hash \<Rightarrow> address trie_fun result"
  OpenStorageTrie :: "hash \<Rightarrow> hash \<Rightarrow> hash trie_fun result"
  ContractCode :: "hash \<Rightarrow> hash \<Rightarrow> bytes result"
  ContractCodeSize :: "hash \<Rightarrow> hash \<Rightarrow> nat result"
  trie_Hash :: "address trie_fun \<Rightarrow> hash"
  storage_Hash :: "hash trie_fun \<Rightarrow> hash"
  Keccak256 :: "bytes \<Rightarrow> hash"

text \<open>\<^verbatim>\<open>common.BytesToHash\<close>, and the bytes of hashes and addresses.\<close>

definition BytesToHash :: "bytes \<Rightarrow> hash" where
  "BytesToHash b = word_of_nat (be_nat b)"

definition hash_bytes :: "hash \<Rightarrow> bytes" where
  "hash_bytes h = be_fixed 32 (unat h)"

definition address_bytes :: "address \<Rightarrow> bytes" where
  "address_bytes a = be_fixed 20 (unat a)"

definition emptyCodeHash :: "database \<Rightarrow> bytes" where
  "emptyCodeHash db = hash_bytes (Keccak256 db [])"

definition emptyTrieRoot :: hash where
  "emptyTrieRoot = 0x56e81f171bcc55a6ff8345e692c0f86e5b48e01b996cadc001622fb5e363b421"

subsection \<open>Account objects\<close>

record Account =
  Nonce :: uint64
  Balance :: int
  Root :: hash
  CodeHash :: bytes

record stateObject =
  so_address :: address
  so_data :: Account
  so_dbErr :: "go_error option"
  so_trie :: "hash trie_fun option"
  so_code :: "bytes option"
  cachedStorage :: "hash \<rightharpoonup> hash"
  dirtyStorage :: "hash \<rightharpoonup> hash"
  cachedStorageByteArray :: "hash \<rightharpoonup> bytes"
  dirtyStorageByteArray :: "hash \<rightharpoonup> bytes"
  dirtyCode :: bool
  suicided :: bool
  touched :: bool
  deleted :: bool
  onDirty :: bool

record Log =
  log_Address :: address
  log_Topics :: "hash list"
  log_Data :: bytes
  log_BlockNumber :: uint64
  log_TxHash :: hash
  log_TxIndex :: uint64
  log_BlockHash :: hash
  log_Index :: uint64
  log_Removed :: bool

datatype journalEntry =
    createObjectChange address
  | resetObjectChange stateObject
  | suicideChange address bool int
  | balanceChange address int
  | nonceChange address uint64
  | storageChange address hash hash
  | storageByteArrayChange address hash bytes
  | codeChange address "bytes option" bytes
  | refundChange int
  | addLogChange hash
  | addPreimageChange hash
  | touchChange address bool bool

record stateDB =
  sdb_trie :: "address trie_fun"
  stateObjects :: "address \<rightharpoonup> stateObject"
  stateObjectsDirty :: "address set"
  sdb_dbErr :: "go_error option"
  refund :: int
  thash :: hash
  bhash :: hash
  txIndex :: int
  logs :: "hash \<rightharpoonup> Log list"
  logSize :: uint64
  preimages :: "hash \<rightharpoonup> bytes"
  journal :: "journalEntry list"
  validRevisions :: "(int \<times> nat) list"
  nextRevisionId :: int

text \<open>\<open>journal\<close> and \<open>validRevisions\<close> are in the order of the slices: the latest entry last.\<close>

definition empty_trie :: "'k trie_fun" where
  "empty_trie = (\<lambda>_. Inr [])"

definition len_nonzero :: "('k \<rightharpoonup> 'v) \<Rightarrow> bool" where
  "len_nonzero m \<longleftrightarrow> m \<noteq> Map.empty"

definition so_empty :: "database \<Rightarrow> stateObject \<Rightarrow> bool" where
  "so_empty db o' \<longleftrightarrow>
     Nonce (so_data o') = 0 \<and> Balance (so_data o') = 0 \<and>
     (CodeHash (so_data o') = emptyCodeHash db \<or> CodeHash (so_data o') = hash_bytes 0) \<and>
     (Root (so_data o') = 0 \<or> Root (so_data o') = emptyTrieRoot) \<and>
     \<not> len_nonzero (dirtyStorage o') \<and> \<not> len_nonzero (dirtyStorageByteArray o')"

definition newObject :: "address \<Rightarrow> Account \<Rightarrow> stateObject" where
  "newObject addr acc =
     \<lparr>so_address = addr, so_data = acc, so_dbErr = None, so_trie = None, so_code = None,
      cachedStorage = Map.empty, dirtyStorage = Map.empty,
      cachedStorageByteArray = Map.empty, dirtyStorageByteArray = Map.empty,
      dirtyCode = False, suicided = False, touched = False, deleted = False, onDirty = True\<rparr>"

text \<open>\<^verbatim>\<open>Account{}\<close> as \<^verbatim>\<open>newObject\<close> completes it.\<close>

definition zeroAccount :: "database \<Rightarrow> Account" where
  "zeroAccount db = \<lparr>Nonce = 0, Balance = 0, Root = 0, CodeHash = emptyCodeHash db\<rparr>"

definition so_setError :: "go_error \<Rightarrow> stateObject \<Rightarrow> stateObject" where
  "so_setError err ob = (if so_dbErr ob = None then ob\<lparr>so_dbErr := Some err\<rparr> else ob)"

definition setError_opt :: "go_error option \<Rightarrow> stateObject \<Rightarrow> stateObject" where
  "setError_opt e ob = (case e of None \<Rightarrow> ob | Some err \<Rightarrow> so_setError err ob)"

type_synonym objst = "stateObject \<times> stateDB"

definition MarkStateObjectDirty :: "address \<Rightarrow> stateDB \<Rightarrow> stateDB" where
  "MarkStateObjectDirty addr s = s\<lparr>stateObjectsDirty := insert addr (stateObjectsDirty s)\<rparr>"

text \<open>\<^verbatim>\<open>if self.onDirty != nil { self.onDirty(self.Address()); self.onDirty = nil }\<close>\<close>

definition fire_onDirty :: "objst \<Rightarrow> objst" where
  "fire_onDirty os = (case os of (ob, s) \<Rightarrow>
     if onDirty ob then (ob\<lparr>onDirty := False\<rparr>, MarkStateObjectDirty (so_address ob) s) else (ob, s))"

definition append_journal :: "journalEntry \<Rightarrow> stateDB \<Rightarrow> stateDB" where
  "append_journal e s = s\<lparr>journal := journal s @ [e]\<rparr>"

definition markSuicided :: "objst \<Rightarrow> objst" where
  "markSuicided os = (case os of (ob, s) \<Rightarrow> fire_onDirty (ob\<lparr>suicided := True\<rparr>, s))"

definition touch :: "objst \<Rightarrow> objst" where
  "touch os = (case os of (ob, s) \<Rightarrow>
     let s1 = append_journal (touchChange (so_address ob) (touched ob) (\<not> onDirty ob)) s;
         (ob2, s2) = fire_onDirty (ob, s1)
     in (ob2\<lparr>touched := True\<rparr>, s2))"

definition getTrie :: "database \<Rightarrow> stateObject \<Rightarrow> hash trie_fun \<times> stateObject" where
  "getTrie db ob =
     (case so_trie ob of
        Some t \<Rightarrow> (t, ob)
      | None \<Rightarrow>
          (case OpenStorageTrie db (Keccak256 db (address_bytes (so_address ob))) (Root (so_data ob)) of
             Inr t \<Rightarrow> (t, ob\<lparr>so_trie := Some t\<rparr>)
           | Inl err \<Rightarrow> (empty_trie, so_setError (Err ''can't create storage trie'')
                          (ob\<lparr>so_trie := Some empty_trie\<rparr>))))"

definition so_GetState :: "database \<Rightarrow> hash \<Rightarrow> stateObject \<Rightarrow> hash result \<times> stateObject" where
  "so_GetState db key ob =
     (case cachedStorage ob key of
        Some v \<Rightarrow> (Inr v, ob)
      | None \<Rightarrow>
          let (tr, ob1) = getTrie db ob in
          (case TryGet tr key of
             Inl err \<Rightarrow> (Inr 0, so_setError err ob1)
           | Inr enc \<Rightarrow>
               if length enc > 0 then
                 (case Split enc of
                    Inl (Panic m) \<Rightarrow> (Inl (Panic m), ob1)
                  | Inl (Err m) \<Rightarrow> (Inr 0, so_setError (Err m) ob1)
                  | Inr (_, content, _) \<Rightarrow>
                      let v = BytesToHash content in
                      if v \<noteq> 0 then (Inr v, ob1\<lparr>cachedStorage := (cachedStorage ob1)(key \<mapsto> v)\<rparr>)
                      else (Inr v, ob1))
               else (Inr 0, ob1)))"

definition so_GetStateByteArray :: "database \<Rightarrow> hash \<Rightarrow> stateObject \<Rightarrow> bytes \<times> stateObject" where
  "so_GetStateByteArray db key ob =
     (case cachedStorageByteArray ob key of
        Some v \<Rightarrow> (v, ob)
      | None \<Rightarrow>
          let (tr, ob1) = getTrie db ob in
          (case TryGet tr key of
             Inl err \<Rightarrow> ([], ob1)
           | Inr v \<Rightarrow>
               if length v \<noteq> 0
               then (v, ob1\<lparr>cachedStorageByteArray := (cachedStorageByteArray ob1)(key \<mapsto> v)\<rparr>)
               else (v, ob1)))"

definition so_setState :: "hash \<Rightarrow> hash \<Rightarrow> objst \<Rightarrow> objst" where
  "so_setState key v os = (case os of (ob, s) \<Rightarrow>
     fire_onDirty (ob\<lparr>cachedStorage := (cachedStorage ob)(key \<mapsto> v),
                      dirtyStorage := (dirtyStorage ob)(key \<mapsto> v)\<rparr>, s))"

definition so_SetState :: "database \<Rightarrow> hash \<Rightarrow> hash \<Rightarrow> objst \<Rightarrow> objst result" where
  "so_SetState db key v os = (case os of (ob, s) \<Rightarrow>
     (case so_GetState db key ob of
        (Inl e, ob1) \<Rightarrow> Inl e
      | (Inr prev, ob1) \<Rightarrow>
          Inr (so_setState key v (ob1, append_journal (storageChange (so_address ob) key prev) s))))"

definition so_setStateByteArray :: "hash \<Rightarrow> bytes \<Rightarrow> objst \<Rightarrow> objst" where
  "so_setStateByteArray key v os = (case os of (ob, s) \<Rightarrow>
     fire_onDirty (ob\<lparr>cachedStorageByteArray := (cachedStorageByteArray ob)(key \<mapsto> v),
                      dirtyStorageByteArray := (dirtyStorageByteArray ob)(key \<mapsto> v)\<rparr>, s))"

definition so_SetStateByteArray :: "database \<Rightarrow> hash \<Rightarrow> bytes \<Rightarrow> objst \<Rightarrow> objst" where
  "so_SetStateByteArray db key v os = (case os of (ob, s) \<Rightarrow>
     let (prev, ob1) = so_GetStateByteArray db key ob in
     so_setStateByteArray key v
       (ob1, append_journal (storageByteArrayChange (so_address ob) key prev) s))"

definition so_setBalance :: "int \<Rightarrow> objst \<Rightarrow> objst" where
  "so_setBalance amount os = (case os of (ob, s) \<Rightarrow>
     fire_onDirty (ob\<lparr>so_data := (so_data ob)\<lparr>Balance := amount\<rparr>\<rparr>, s))"

definition so_SetBalance :: "int \<Rightarrow> objst \<Rightarrow> objst" where
  "so_SetBalance amount os = (case os of (ob, s) \<Rightarrow>
     so_setBalance amount (ob, append_journal (balanceChange (so_address ob) (Balance (so_data ob))) s))"

definition so_AddBalance :: "database \<Rightarrow> int \<Rightarrow> objst \<Rightarrow> objst" where
  "so_AddBalance db amount os = (case os of (ob, s) \<Rightarrow>
     if amount > 0 then so_SetBalance (Balance (so_data ob) + amount) (ob, s)
     else if amount = 0 then (if so_empty db ob then touch (ob, s) else (ob, s))
     else (ob, s))"

definition so_SubBalance :: "int \<Rightarrow> objst \<Rightarrow> objst" where
  "so_SubBalance amount os = (case os of (ob, s) \<Rightarrow>
     if amount > 0 then so_SetBalance (Balance (so_data ob) - amount) (ob, s) else (ob, s))"

definition so_Code :: "database \<Rightarrow> stateObject \<Rightarrow> bytes option \<times> stateObject" where
  "so_Code db ob =
     (case so_code ob of
        Some c \<Rightarrow> (Some c, ob)
      | None \<Rightarrow>
          if CodeHash (so_data ob) = emptyCodeHash db then (None, ob)
          else
            (case ContractCode db (Keccak256 db (address_bytes (so_address ob)))
                    (BytesToHash (CodeHash (so_data ob))) of
               Inl err \<Rightarrow> (None, so_setError (Err ''can't load code hash'') ob)
             | Inr c \<Rightarrow> (Some c, ob\<lparr>so_code := Some c\<rparr>)))"

definition so_setCode :: "hash \<Rightarrow> bytes option \<Rightarrow> objst \<Rightarrow> objst" where
  "so_setCode codeHash code os = (case os of (ob, s) \<Rightarrow>
     fire_onDirty (ob\<lparr>so_code := code, so_data := (so_data ob)\<lparr>CodeHash := hash_bytes codeHash\<rparr>,
                      dirtyCode := True\<rparr>, s))"

definition so_SetCode :: "database \<Rightarrow> hash \<Rightarrow> bytes option \<Rightarrow> objst \<Rightarrow> objst" where
  "so_SetCode db codeHash code os = (case os of (ob, s) \<Rightarrow>
     let (prevcode, ob1) = so_Code db ob in
     so_setCode codeHash code
       (ob1, append_journal (codeChange (so_address ob) prevcode (CodeHash (so_data ob))) s))"

definition so_setNonce :: "uint64 \<Rightarrow> objst \<Rightarrow> objst" where
  "so_setNonce nonce os = (case os of (ob, s) \<Rightarrow>
     fire_onDirty (ob\<lparr>so_data := (so_data ob)\<lparr>Nonce := nonce\<rparr>\<rparr>, s))"

definition so_SetNonce :: "uint64 \<Rightarrow> objst \<Rightarrow> objst" where
  "so_SetNonce nonce os = (case os of (ob, s) \<Rightarrow>
     so_setNonce nonce (ob, append_journal (nonceChange (so_address ob) (Nonce (so_data ob))) s))"

text \<open>\<^verbatim>\<open>v, _ := rlp.EncodeToBytes(x)\<close>.\<close>

definition encode_ignore :: "rlp_val \<Rightarrow> bytes" where
  "encode_ignore v = (case EncodeToBytes v of Inl e \<Rightarrow> [] | Inr b \<Rightarrow> b)"

text \<open>
  \<^verbatim>\<open>updateTrie\<close> visits the dirty entries in the order of the map iteration, given by the
  lists of keys; entries whose value is zero or empty are removed from the trie.
\<close>

fun updateTrie_words :: "hash list \<Rightarrow> hash trie_fun \<times> stateObject \<Rightarrow> hash trie_fun \<times> stateObject" where
  "updateTrie_words [] ts = ts"
| "updateTrie_words (key # ks) (tr, ob) =
     (case dirtyStorage ob key of
        None \<Rightarrow> updateTrie_words ks (tr, ob)
      | Some v \<Rightarrow>
          let ob1 = ob\<lparr>dirtyStorage := (dirtyStorage ob)(key := None)\<rparr>;
              (e, tr1) = (if v = 0 then TryDelete key tr
                          else TryUpdate key (encode_ignore (RBytes (nat_be (unat v)))) tr)
          in updateTrie_words ks (tr1, setError_opt e ob1))"

fun updateTrie_arrays :: "hash list \<Rightarrow> hash trie_fun \<times> stateObject \<Rightarrow> hash trie_fun \<times> stateObject" where
  "updateTrie_arrays [] ts = ts"
| "updateTrie_arrays (key # ks) (tr, ob) =
     (case dirtyStorageByteArray ob key of
        None \<Rightarrow> updateTrie_arrays ks (tr, ob)
      | Some v \<Rightarrow>
          let ob1 = ob\<lparr>dirtyStorageByteArray := (dirtyStorageByteArray ob)(key := None)\<rparr>;
              (e, tr1) = (if length v = 0 then TryDelete key tr else TryUpdate key v tr)
          in updateTrie_arrays ks (tr1, setError_opt e ob1))"

definition updateTrie :: "database \<Rightarrow> hash list \<Rightarrow> hash list \<Rightarrow> stateObject \<Rightarrow> hash trie_fun \<times> stateObject" where
  "updateTrie db ks bks ob =
     (let (tr, ob1) = updateTrie_arrays bks (updateTrie_words ks (getTrie db ob))
      in (tr, ob1\<lparr>so_trie := Some tr\<rparr>))"

definition updateRoot :: "database \<Rightarrow> hash list \<Rightarrow> hash list \<Rightarrow> stateObject \<Rightarrow> stateObject" where
  "updateRoot db ks bks ob =
     (let (tr, ob1) = updateTrie db ks bks ob
      in ob1\<lparr>so_data := (so_data ob1)\<lparr>Root := storage_Hash db tr\<rparr>\<rparr>)"

definition deepCopy :: "stateObject \<Rightarrow> stateObject" where
  "deepCopy ob =
     (newObject (so_address ob) (so_data ob))
       \<lparr>so_trie := so_trie ob, so_code := so_code ob,
        dirtyStorage := dirtyStorage ob, cachedStorage := dirtyStorage ob,
        dirtyStorageByteArray := dirtyStorageByteArray ob,
        cachedStorageByteArray := cachedStorageByteArray ob,
        suicided := suicided ob, dirtyCode := dirtyCode ob, deleted := deleted ob\<rparr>"

subsection \<open>The state database\<close>

text \<open>The RLP struct coding of \<^verbatim>\<open>Account\<close>.\<close>

definition account_val :: "Account \<Rightarrow> rlp_val" where
  "account_val a =
     RList [RUint (Nonce a), RBig (Some (Balance a)), RBytes (hash_bytes (Root a)), RBytes (CodeHash a)]"

definition decodeAccount :: "Account sop" where
  "decodeAccount = structDecoder ''state.Account''
     (sbind (struct_field ''state.Account'' decodeUint) (\<lambda>n.
      sbind (struct_field ''state.Account'' decodeBigInt) (\<lambda>b.
      sbind (struct_field ''state.Account'' (decodeByteArray 32 ''common.Hash'')) (\<lambda>r.
      sbind (struct_field ''state.Account'' decodeByteSlice) (\<lambda>c.
        sret \<lparr>Nonce = n, Balance = b, Root = BytesToHash r, CodeHash = c\<rparr>)))))"

definition New :: "database \<Rightarrow> hash \<Rightarrow> stateDB result" where
  "New db root =
     (case OpenTrie db root of
        Inl err \<Rightarrow> Inl err
      | Inr tr \<Rightarrow> Inr
          \<lparr>sdb_trie = tr, stateObjects = Map.empty, stateObjectsDirty = {}, sdb_dbErr = None,
           refund = 0, thash = 0, bhash = 0, txIndex = 0, logs = Map.empty, logSize = 0,
           preimages = Map.empty, journal = [], validRevisions = [], nextRevisionId = 0\<rparr>)"

definition sdb_setError :: "go_error option \<Rightarrow> stateDB \<Rightarrow> stateDB" where
  "sdb_setError err s = (if sdb_dbErr s = None then s\<lparr>sdb_dbErr := err\<rparr> else s)"

definition clearJournalAndRefund :: "stateDB \<Rightarrow> stateDB" where
  "clearJournalAndRefund s = s\<lparr>journal := [], validRevisions := [], refund := 0\<rparr>"

definition Reset :: "database \<Rightarrow> hash \<Rightarrow> stateDB \<Rightarrow> go_error option \<times> stateDB" where
  "Reset db root s =
     (case OpenTrie db root of
        Inl err \<Rightarrow> (Some err, s)
      | Inr tr \<Rightarrow> (None, clearJournalAndRefund
          (s\<lparr>sdb_trie := tr, stateObjects := Map.empty, stateObjectsDirty := {},
             thash := 0, bhash := 0, txIndex := 0, logs := Map.empty, logSize := 0,
             preimages := Map.empty\<rparr>)))"

definition log_list :: "hash \<Rightarrow> stateDB \<Rightarrow> Log list" where
  "log_list h s = (case logs s h of None \<Rightarrow> [] | Some ls \<Rightarrow> ls)"

definition AddLog :: "Log \<Rightarrow> stateDB \<Rightarrow> stateDB" where
  "AddLog l s =
     (let s1 = append_journal (addLogChange (thash s)) s;
          l' = l\<lparr>log_TxHash := thash s, log_BlockHash := bhash s,
                 log_TxIndex := word_of_int (txIndex s), log_Index := logSize s\<rparr>
      in s1\<lparr>logs := (logs s1)(thash s \<mapsto> log_list (thash s) s1 @ [l']), logSize := logSize s1 + 1\<rparr>)"

definition GetLogs :: "hash \<Rightarrow> stateDB \<Rightarrow> Log list" where
  "GetLogs h s = log_list h s"

definition AddPreimage :: "hash \<Rightarrow> bytes \<Rightarrow> stateDB \<Rightarrow> stateDB" where
  "AddPreimage h preimage s =
     (case preimages s h of
        Some _ \<Rightarrow> s
      | None \<Rightarrow> (append_journal (addPreimageChange h) s)\<lparr>preimages := (preimages s)(h \<mapsto> preimage)\<rparr>)"

definition AddRefund :: "int \<Rightarrow> stateDB \<Rightarrow> stateDB" where
  "AddRefund gas s = (append_journal (refundChange (refund s)) s)\<lparr>refund := refund s + gas\<rparr>"

definition setStateObject :: "stateObject \<Rightarrow> stateDB \<Rightarrow> stateDB" where
  "setStateObject ob s = s\<lparr>stateObjects := (stateObjects s)(so_address ob \<mapsto> ob)\<rparr>"

text \<open>A method call through the pointer: the object in the map changes with its database.\<close>

definition store_obj :: "objst \<Rightarrow> stateDB" where
  "store_obj os = (case os of (ob, s) \<Rightarrow> setStateObject ob s)"

definition getStateObject :: "address \<Rightarrow> stateDB \<Rightarrow> stateObject option \<times> stateDB" where
  "getStateObject addr s =
     (case stateObjects s addr of
        Some ob \<Rightarrow> if deleted ob then (None, s) else (Some ob, s)
      | None \<Rightarrow>
          (case TryGet (sdb_trie s) addr of
             Inl err \<Rightarrow> (None, sdb_setError (Some err) s)
           | Inr enc \<Rightarrow>
               if length enc = 0 then (None, sdb_setError None s)
               else
                 (case DecodeBytes decodeAccount enc of
                    Inl err \<Rightarrow> (None, s)
                  | Inr acc \<Rightarrow> let ob = newObject addr acc in (Some ob, setStateObject ob s))))"

definition Exist :: "address \<Rightarrow> stateDB \<Rightarrow> bool \<times> stateDB" where
  "Exist addr s = (let (ob, s1) = getStateObject addr s in (ob \<noteq> None, s1))"

definition Empty :: "database \<Rightarrow> address \<Rightarrow> stateDB \<Rightarrow> bool \<times> stateDB" where
  "Empty db addr s =
     (let (so, s1) = getStateObject addr s in
      (case so of None \<Rightarrow> True | Some ob \<Rightarrow> so_empty db ob, s1))"

definition GetBalance :: "address \<Rightarrow> stateDB \<Rightarrow> int \<times> stateDB" where
  "GetBalance addr s =
     (let (so, s1) = getStateObject addr s in
      (case so of None \<Rightarrow> 0 | Some ob \<Rightarrow> Balance (so_data ob), s1))"

definition GetNonce :: "address \<Rightarrow> stateDB \<Rightarrow> uint64 \<times> stateDB" where
  "GetNonce addr s =
     (let (so, s1) = getStateObject addr s in
      (case so of None \<Rightarrow> 0 | Some ob \<Rightarrow> Nonce (so_data ob), s1))"

definition GetCode :: "database \<Rightarrow> address \<Rightarrow> stateDB \<Rightarrow> bytes option \<times> stateDB" where
  "GetCode db addr s =
     (let (so, s1) = getStateObject addr s in
      case so of None \<Rightarrow> (None, s1)
      | Some ob \<Rightarrow> let (c, ob1) = so_Code db ob in (c, setStateObject ob1 s1))"

definition GetCodeSize :: "database \<Rightarrow> address \<Rightarrow> stateDB \<Rightarrow> nat \<times> stateDB" where
  "GetCodeSize db addr s =
     (let (so, s1) = getStateObject addr s in
      case so of None \<Rightarrow> (0, s1)
      | Some ob \<Rightarrow>
          (case so_code ob of
             Some c \<Rightarrow> (length c, s1)
           | None \<Rightarrow>
               (case ContractCodeSize db (Keccak256 db (address_bytes (so_address ob)))
                       (BytesToHash (CodeHash (so_data ob))) of
                  Inl err \<Rightarrow> (0, sdb_setError (Some err) s1)
                | Inr n \<Rightarrow> (n, s1))))"

definition GetCodeHash :: "address \<Rightarrow> stateDB \<Rightarrow> hash \<times> stateDB" where
  "GetCodeHash addr s =
     (let (so, s1) = getStateObject addr s in
      (case so of None \<Rightarrow> 0 | Some ob \<Rightarrow> BytesToHash (CodeHash (so_data ob)), s1))"

definition GetState :: "database \<Rightarrow> address \<Rightarrow> hash \<Rightarrow> stateDB \<Rightarrow> hash result \<times> stateDB" where
  "GetState db a b s =
     (let (so, s1) = getStateObject a s in
      case so of None \<Rightarrow> (Inr 0, s1)
      | Some ob \<Rightarrow> let (v, ob1) = so_GetState db b ob in (v, setStateObject ob1 s1))"

definition GetStateByteArray :: "database \<Rightarrow> address \<Rightarrow> hash \<Rightarrow> stateDB \<Rightarrow> bytes \<times> stateDB" where
  "GetStateByteArray db a b s =
     (let (so, s1) = getStateObject a s in
      case so of None \<Rightarrow> ([], s1)
      | Some ob \<Rightarrow> let (v, ob1) = so_GetStateByteArray db b ob in (v, setStateObject ob1 s1))"

definition HasSuicided :: "address \<Rightarrow> stateDB \<Rightarrow> bool \<times> stateDB" where
  "HasSuicided addr s =
     (let (so, s1) = getStateObject addr s in
      (case so of None \<Rightarrow> False | Some ob \<Rightarrow> suicided ob, s1))"

definition createObject :: "database \<Rightarrow> address \<Rightarrow> stateDB \<Rightarrow> stateObject \<times> stateObject option \<times> stateDB" where
  "createObject db addr s =
     (let (prev, s1) = getStateObject addr s;
          (newobj, s2) = so_setNonce 0 (newObject addr (zeroAccount db), s1);
          s3 = append_journal (case prev of None \<Rightarrow> createObjectChange addr
                                          | Some p \<Rightarrow> resetObjectChange p) s2
      in (newobj, prev, setStateObject newobj s3))"

definition GetOrNewStateObject :: "database \<Rightarrow> address \<Rightarrow> stateDB \<Rightarrow> objst" where
  "GetOrNewStateObject db addr s =
     (case getStateObject addr s of
        (None, s1) \<Rightarrow> (let (ob, _, s2) = createObject db addr s1 in (ob, s2))
      | (Some ob, s1) \<Rightarrow>
          if deleted ob then (let (ob', _, s2) = createObject db addr s1 in (ob', s2)) else (ob, s1))"

definition AddBalance :: "database \<Rightarrow> address \<Rightarrow> int \<Rightarrow> stateDB \<Rightarrow> stateDB" where
  "AddBalance db addr amount s = store_obj (so_AddBalance db amount (GetOrNewStateObject db addr s))"

definition SubBalance :: "database \<Rightarrow> address \<Rightarrow> int \<Rightarrow> stateDB \<Rightarrow> stateDB" where
  "SubBalance db addr amount s = store_obj (so_SubBalance amount (GetOrNewStateObject db addr s))"

definition SetBalance :: "database \<Rightarrow> address \<Rightarrow> int \<Rightarrow> stateDB \<Rightarrow> stateDB" where
  "SetBalance db addr amount s = store_obj (so_SetBalance amount (GetOrNewStateObject db addr s))"

definition SetNonce :: "database \<Rightarrow> address \<Rightarrow> uint64 \<Rightarrow> stateDB \<Rightarrow> stateDB" where
  "SetNonce db addr nonce s = store_obj (so_SetNonce nonce (GetOrNewStateObject db addr s))"

definition SetCode :: "database \<Rightarrow> address \<Rightarrow> bytes \<Rightarrow> stateDB \<Rightarrow> stateDB" where
  "SetCode db addr code s =
     store_obj (so_SetCode db (Keccak256 db code) (Some code) (GetOrNewStateObject db addr s))"

definition SetState :: "database \<Rightarrow> address \<Rightarrow> hash \<Rightarrow> hash \<Rightarrow> stateDB \<Rightarrow> stateDB result" where
  "SetState db addr key v s =
     res_bind (so_SetState db key v (GetOrNewStateObject db addr s)) (\<lambda>os. Inr (store_obj os))"

definition SetStateByteArray :: "database \<Rightarrow> address \<Rightarrow> hash \<Rightarrow> bytes \<Rightarrow> stateDB \<Rightarrow> stateDB" where
  "SetStateByteArray db addr key v s =
     store_obj (so_SetStateByteArray db key v (GetOrNewStateObject db addr s))"

definition Suicide :: "address \<Rightarrow> stateDB \<Rightarrow> bool \<times> stateDB" where
  "Suicide addr s =
     (case getStateObject addr s of
        (None, s1) \<Rightarrow> (False, s1)
      | (Some ob, s1) \<Rightarrow>
          let s2 = append_journal (suicideChange addr (suicided ob) (Balance (so_data ob))) s1;
              (ob3, s3) = markSuicided (ob, s2)
          in (True, setStateObject (ob3\<lparr>so_data := (so_data ob3)\<lparr>Balance := 0\<rparr>\<rparr>) s3))"

definition CreateAccount :: "database \<Rightarrow> address \<Rightarrow> stateDB \<Rightarrow> stateDB" where
  "CreateAccount db addr s =
     (case createObject db addr s of
        (new, prev, s1) \<Rightarrow>
          (case prev of None \<Rightarrow> s1
           | Some p \<Rightarrow> store_obj (so_setBalance (Balance (so_data p)) (new, s1))))"

subsection \<open>Snapshots\<close>

definition ripemd :: address where
  "ripemd = 3"

text \<open>A method call on a nil object is a panic.\<close>

definition with_obj :: "address \<Rightarrow> (objst \<Rightarrow> objst) \<Rightarrow> stateDB \<Rightarrow> stateDB result" where
  "with_obj addr f s =
     (case getStateObject addr s of
        (None, s1) \<Rightarrow> Inl (Panic ''nil pointer dereference'')
      | (Some ob, s1) \<Rightarrow> Inr (store_obj (f (ob, s1))))"

fun undo :: "journalEntry \<Rightarrow> stateDB \<Rightarrow> stateDB result" where
  "undo (createObjectChange a) s =
     Inr (s\<lparr>stateObjects := (stateObjects s)(a := None), stateObjectsDirty := stateObjectsDirty s - {a}\<rparr>)"
| "undo (resetObjectChange prev) s = Inr (setStateObject prev s)"
| "undo (suicideChange a prev prevbalance) s =
     (case getStateObject a s of
        (None, s1) \<Rightarrow> Inr s1
      | (Some ob, s1) \<Rightarrow> Inr (store_obj (so_setBalance prevbalance (ob\<lparr>suicided := prev\<rparr>, s1))))"
| "undo (touchChange a prev prevDirty) s =
     (if \<not> prev \<and> a \<noteq> ripemd then
        res_bind (with_obj a (\<lambda>(ob, s1). (ob\<lparr>touched := prev\<rparr>, s1)) s) (\<lambda>s2.
          if \<not> prevDirty then Inr (s2\<lparr>stateObjectsDirty := stateObjectsDirty s2 - {a}\<rparr>) else Inr s2)
      else Inr s)"
| "undo (balanceChange a prev) s = with_obj a (so_setBalance prev) s"
| "undo (nonceChange a prev) s = with_obj a (so_setNonce prev) s"
| "undo (codeChange a prevcode prevhash) s = with_obj a (so_setCode (BytesToHash prevhash) prevcode) s"
| "undo (storageChange a key prev) s = with_obj a (so_setState key prev) s"
| "undo (storageByteArrayChange a key prev) s = with_obj a (so_setStateByteArray key prev) s"
| "undo (refundChange prev) s = Inr (s\<lparr>refund := prev\<rparr>)"
| "undo (addLogChange txhash) s =
     (let ls = log_list txhash s in
      if length ls = 1 then Inr (s\<lparr>logs := (logs s)(txhash := None), logSize := logSize s - 1\<rparr>)
      else if ls = [] then Inl (Panic ''slice bounds out of range'')
      else Inr (s\<lparr>logs := (logs s)(txhash \<mapsto> butlast ls), logSize := logSize s - 1\<rparr>))"
| "undo (addPreimageChange h) s = Inr (s\<lparr>preimages := (preimages s)(h := None)\<rparr>)"

text \<open>\<^verbatim>\<open>for i := len(self.journal) - 1; i >= snapshot; i--\<close>: the entries latest first.\<close>

fun undo_all :: "journalEntry list \<Rightarrow> stateDB \<Rightarrow> stateDB result" where
  "undo_all [] s = Inr s"
| "undo_all (e # es) s = res_bind (undo e s) (undo_all es)"

definition Snapshot :: "stateDB \<Rightarrow> int \<times> stateDB" where
  "Snapshot s =
     (let i = nextRevisionId s in
      (i, s\<lparr>nextRevisionId := i + 1, validRevisions := validRevisions s @ [(i, length (journal s))]\<rparr>))"

definition RevertToSnapshot :: "int \<Rightarrow> stateDB \<Rightarrow> stateDB result" where
  "RevertToSnapshot revid s =
     (let revs = validRevisions s;
          idx = sort_Search (length revs) (\<lambda>i. revid \<le> fst (revs ! i)) in
      if idx = length revs \<or> fst (revs ! idx) \<noteq> revid then Inl (Panic ''revision id cannot be reverted'')
      else
        (let snapshot = snd (revs ! idx) in
         res_bind (undo_all (rev (drop snapshot (journal s))) s) (\<lambda>s1.
           Inr (s1\<lparr>journal := take snapshot (journal s1),
                   validRevisions := take idx (validRevisions s1)\<rparr>))))"

definition GetRefund :: "stateDB \<Rightarrow> int" where
  "GetRefund s = refund s"

subsection \<open>Writing the state back\<close>

text \<open>A value that cannot be encoded (a negative balance) is a panic of \<^verbatim>\<open>updateStateObject\<close>.\<close>

definition updateStateObject :: "stateObject \<Rightarrow> stateDB \<Rightarrow> stateDB result" where
  "updateStateObject ob s =
     (case EncodeToBytes (account_val (so_data ob)) of
        Inl err \<Rightarrow> Inl (Panic ''can't encode object'')
      | Inr d \<Rightarrow>
          let (e, tr) = TryUpdate (so_address ob) d (sdb_trie s)
          in Inr (sdb_setError e (s\<lparr>sdb_trie := tr\<rparr>)))"

definition deleteStateObject :: "stateObject \<Rightarrow> stateDB \<Rightarrow> stateDB" where
  "deleteStateObject ob s =
     (let s1 = setStateObject (ob\<lparr>deleted := True\<rparr>) s;
          (e, tr) = TryDelete (so_address ob) (sdb_trie s1)
      in sdb_setError e (s1\<lparr>sdb_trie := tr\<rparr>))"

text \<open>The loop of \<^verbatim>\<open>Finalise\<close> over the dirty addresses, in the order of the map iteration;
  \<open>ko\<close> gives the key orders for the storage of each account.  An address that is dirty without a
  live object is a nil dereference.\<close>

type_synonym key_order = "address \<Rightarrow> hash list \<times> hash list"

definition finalise_obj :: "database \<Rightarrow> key_order \<Rightarrow> bool \<Rightarrow> address \<Rightarrow> stateDB \<Rightarrow> stateDB result" where
  "finalise_obj db ko deleteEmptyObjects addr s =
     (case stateObjects s addr of
        None \<Rightarrow> Inl (Panic ''nil pointer dereference'')
      | Some ob \<Rightarrow>
          if suicided ob \<or> (deleteEmptyObjects \<and> so_empty db ob) then Inr (deleteStateObject ob s)
          else
            (let ob1 = updateRoot db (fst (ko addr)) (snd (ko addr)) ob
             in updateStateObject ob1 (setStateObject ob1 s)))"

fun finalise_loop :: "database \<Rightarrow> key_order \<Rightarrow> bool \<Rightarrow> address list \<Rightarrow> stateDB \<Rightarrow> stateDB result" where
  "finalise_loop db ko del [] s = Inr s"
| "finalise_loop db ko del (a # as) s =
     res_bind (finalise_obj db ko del a s) (finalise_loop db ko del as)"

definition Finalise :: "database \<Rightarrow> key_order \<Rightarrow> address list \<Rightarrow> bool \<Rightarrow> stateDB \<Rightarrow> stateDB result" where
  "Finalise db ko order deleteEmptyObjects s =
     res_bind (finalise_loop db ko deleteEmptyObjects order s) (\<lambda>s1. Inr (clearJournalAndRefund s1))"

definition IntermediateRoot :: "database \<Rightarrow> key_order \<Rightarrow> address list \<Rightarrow> bool \<Rightarrow> stateDB \<Rightarrow> (hash \<times> stateDB) result" where
  "IntermediateRoot db ko order deleteEmptyObjects s =
     res_bind (Finalise db ko order deleteEmptyObjects s) (\<lambda>s1. Inr (trie_Hash db (sdb_trie s1), s1))"

definition Prepare :: "hash \<Rightarrow> hash \<Rightarrow> int \<Rightarrow> stateDB \<Rightarrow> stateDB" where
  "Prepare th bh ti s = s\<lparr>thash := th, bhash := bh, txIndex := ti\<rparr>"

definition Copy :: "stateDB \<Rightarrow> stateDB" where
  "Copy s =
     \<lparr>sdb_trie = sdb_trie s,
      stateObjects = (\<lambda>a. if a \<in> stateObjectsDirty s then map_option deepCopy (stateObjects s a) else None),
      stateObjectsDirty = stateObjectsDirty s, sdb_dbErr = None, refund = refund s,
      thash = 0, bhash = 0, txIndex = 0, logs = logs s, logSize = logSize s,
      preimages = preimages s, journal = [], validRevisions = [], nextRevisionId = 0\<rparr>"

text \<open>Every dirty address with a suicided object is flagged; a dirty address without an object is a
  nil dereference.\<close>

definition DeleteSuicides :: "stateDB \<Rightarrow> stateDB result" where
  "DeleteSuicides s =
     (let s1 = clearJournalAndRefund s in
      if \<exists>a \<in> stateObjectsDirty s1. stateObjects s1 a = None
      then Inl (Panic ''nil pointer dereference'')
      else Inr (s1\<lparr>stateObjects := (\<lambda>a. if a \<in> stateObjectsDirty s1
                     then map_option (\<lambda>ob. if suicided ob then ob\<lparr>deleted := True\<rparr> else ob) (stateObjects s1 a)
                     else stateObjects s1 a),
                   stateObjectsDirty := {}\<rparr>))"

text \<open>The outcome of writing to the target database: \<^verbatim>\<open>Put\<close> and the \<^verbatim>\<open>CommitTo\<close> of the
  two kinds of tries.\<close>

record db_writer =
  dbw_Put :: "bytes \<Rightarrow> bytes \<Rightarrow> go_error option"
  dbw_storage :: "hash trie_fun \<Rightarrow> hash result"
  dbw_trie :: "address trie_fun \<Rightarrow> hash result"

definition CommitTrie :: "database \<Rightarrow> db_writer \<Rightarrow> hash list \<Rightarrow> hash list \<Rightarrow> stateObject \<Rightarrow> go_error option \<times> stateObject" where
  "CommitTrie db dbw ks bks ob =
     (let (tr, ob1) = updateTrie db ks bks ob in
      case so_dbErr ob1 of
        Some e \<Rightarrow> (Some e, ob1)
      | None \<Rightarrow>
          (case dbw_storage dbw tr of
             Inl e \<Rightarrow> (Some e, ob1)
           | Inr root \<Rightarrow> (None, ob1\<lparr>so_data := (so_data ob1)\<lparr>Root := root\<rparr>\<rparr>)))"

text \<open>One round of the loop of \<^verbatim>\<open>CommitTo\<close>; a returned error ends the loop with the state
  as it is then.\<close>

definition commit_obj :: "database \<Rightarrow> db_writer \<Rightarrow> key_order \<Rightarrow> bool \<Rightarrow> address \<Rightarrow> stateDB \<Rightarrow> (go_error option \<times> stateDB) result" where
  "commit_obj db dbw ko del addr s =
     (case stateObjects s addr of
        None \<Rightarrow> Inr (None, s)
      | Some ob \<Rightarrow>
          let isDirty = addr \<in> stateObjectsDirty s;
              undirty = (\<lambda>t. t\<lparr>stateObjectsDirty := stateObjectsDirty t - {addr}\<rparr>)
          in
          if suicided ob \<or> (isDirty \<and> del \<and> so_empty db ob)
          then Inr (None, undirty (deleteStateObject ob s))
          else if isDirty then
            (let put = (case so_code ob of Some c \<Rightarrow> if dirtyCode ob then dbw_Put dbw (CodeHash (so_data ob)) c else None
                        | None \<Rightarrow> None);
                 ob1 = (if so_code ob \<noteq> None then ob\<lparr>dirtyCode := False\<rparr> else ob)
             in case put of
                  Some e \<Rightarrow> Inr (Some e, s)
                | None \<Rightarrow>
                    (case CommitTrie db dbw (fst (ko addr)) (snd (ko addr)) ob1 of
                       (Some e, ob2) \<Rightarrow> Inr (Some e, setStateObject ob2 s)
                     | (None, ob2) \<Rightarrow>
                         res_bind (updateStateObject ob2 (setStateObject ob2 s)) (\<lambda>s2. Inr (None, undirty s2))))
          else Inr (None, undirty s))"

fun commit_loop :: "database \<Rightarrow> db_writer \<Rightarrow> key_order \<Rightarrow> bool \<Rightarrow> address list \<Rightarrow> stateDB \<Rightarrow> (go_error option \<times> stateDB) result" where
  "commit_loop db dbw ko del [] s = Inr (None, s)"
| "commit_loop db dbw ko del (a # as) s =
     res_bind (commit_obj db dbw ko del a s) (\<lambda>(e, s1).
       case e of Some x \<Rightarrow> Inr (Some x, s1) | None \<Rightarrow> commit_loop db dbw ko del as s1)"

definition CommitTo :: "database \<Rightarrow> db_writer \<Rightarrow> key_order \<Rightarrow> address list \<Rightarrow> bool \<Rightarrow> stateDB \<Rightarrow> (hash result \<times> stateDB) result" where
  "CommitTo db dbw ko order del s =
     res_bind (commit_loop db dbw ko del order s) (\<lambda>(e, s1).
       Inr (case e of Some x \<Rightarrow> Inl x | None \<Rightarrow> dbw_trie dbw (sdb_trie s1), clearJournalAndRefund s1))"

subsection \<open>Iterating over storage\<close>

text \<open>A callback returns whether to go on and its updated captured state.\<close>

type_synonym ('v, 'a) callback = "hash \<Rightarrow> 'v \<Rightarrow> 'a \<Rightarrow> bool \<times> 'a"

fun for_pairs :: "('v, 'a) callback \<Rightarrow> (hash \<times> 'v) list \<Rightarrow> 'a \<Rightarrow> bool \<times> 'a" where
  "for_pairs cb [] acc = (True, acc)"
| "for_pairs cb ((k, v) # kvs) acc =
     (case cb k v acc of (cont, acc1) \<Rightarrow> if cont then for_pairs cb kvs acc1 else (False, acc1))"

text \<open>The pairs an iteration visits, for the order \<open>ck\<close> of the cache and the order \<open>tk\<close> of the
  trie iterator; \<open>skip\<close> tells the keys of the trie that are ignored.\<close>

definition cache_pairs :: "hash list \<Rightarrow> (hash \<rightharpoonup> bytes) \<Rightarrow> (hash \<times> bytes) list" where
  "cache_pairs ck m = [(k, v). k \<leftarrow> ck, v \<leftarrow> (case m k of None \<Rightarrow> [] | Some v \<Rightarrow> [v])]"

definition trie_pairs :: "hash list \<Rightarrow> (hash \<Rightarrow> bool) \<Rightarrow> hash trie_fun \<Rightarrow> (hash \<times> bytes) list" where
  "trie_pairs tk skip tr =
     [(k, v). k \<leftarrow> tk, \<not> skip k, v \<leftarrow> (case tr k of Inl _ \<Rightarrow> [] | Inr v \<Rightarrow> if v = [] then [] else [v])]"

definition ForEachStorageByteArrayBeforeFork ::
    "database \<Rightarrow> hash list \<Rightarrow> hash list \<Rightarrow> address \<Rightarrow> (bytes, 'a) callback \<Rightarrow> 'a \<Rightarrow> stateDB \<Rightarrow> 'a \<times> stateDB" where
  "ForEachStorageByteArrayBeforeFork db ck tk addr cb acc s =
     (case getStateObject addr s of
        (None, s1) \<Rightarrow> (acc, s1)
      | (Some so, s1) \<Rightarrow>
          (case for_pairs cb (cache_pairs ck (cachedStorageByteArray so)) acc of
             (False, acc1) \<Rightarrow> (acc1, s1)
           | (True, acc1) \<Rightarrow>
               let (tr, so1) = getTrie db so in
               (snd (for_pairs cb (trie_pairs tk (\<lambda>k. cachedStorage so1 k \<noteq> None) tr) acc1),
                setStateObject so1 s1)))"

definition ForEachStorageByteArray ::
    "bool \<Rightarrow> database \<Rightarrow> hash list \<Rightarrow> hash list \<Rightarrow> address \<Rightarrow> (bytes, 'a) callback \<Rightarrow> 'a \<Rightarrow> stateDB \<Rightarrow> 'a \<times> stateDB" where
  "ForEachStorageByteArray beforeMercury db ck tk addr cb acc s =
     (if beforeMercury then ForEachStorageByteArrayBeforeFork db ck tk addr cb acc s
      else
        (case getStateObject addr s of
           (None, s1) \<Rightarrow> (acc, s1)
         | (Some so, s1) \<Rightarrow>
             (case for_pairs cb (cache_pairs ck (cachedStorageByteArray so)) acc of
                (False, acc1) \<Rightarrow> (acc1, s1)
              | (True, acc1) \<Rightarrow>
                  let (tr, so1) = getTrie db so in
                  (snd (for_pairs cb (trie_pairs tk (\<lambda>k. cachedStorageByteArray so1 k \<noteq> None) tr) acc1),
                   setStateObject so1 s1))))"

end
