(* ===== verification/State_View.thy ===== *)
theory State_View
  imports State_DB
begin

text \<open>
  What a client of the state database observes, and that the database implements it: \<open>world\<close> is
  the contract of the interface \<^verbatim>\<open>vm.StateDB\<close> (accounts, logs, preimages and the refund
  counter as functions), \<open>world_of\<close> reads it off a \<open>stateDB\<close> with its caches, tries and flags,
  and every operation of \<^verbatim>\<open>statedb.go\<close> computes on the concrete state what the operation
  of the same name with prefix \<open>w\<close> does on the \<open>world\<close>.

  The locale \<open>journaled\<close> is the interface between a state and its undo journal; interpreted on
  the state database it gives the correctness of \<^verbatim>\<open>RevertToSnapshot\<close>.
\<close>

subsection \<open>Views\<close>

record aview =
  v_nonce :: uint64
  v_balance :: int
  v_codehash :: hash
  v_code :: "bytes option"
  v_suicided :: bool
  v_storage :: "hash \<Rightarrow> hash result"
  v_bytes :: "hash \<Rightarrow> bytes"

definition obj_view :: "database \<Rightarrow> stateObject \<Rightarrow> aview" where
  "obj_view db ob =
     \<lparr>v_nonce = Nonce (so_data ob), v_balance = Balance (so_data ob),
      v_codehash = BytesToHash (CodeHash (so_data ob)), v_code = fst (so_Code db ob),
      v_suicided = suicided ob, v_storage = (\<lambda>k. fst (so_GetState db k ob)),
      v_bytes = (\<lambda>k. fst (so_GetStateByteArray db k ob))\<rparr>"

definition load_account :: "address trie_fun \<Rightarrow> address \<Rightarrow> Account option" where
  "load_account tr a =
     (case TryGet tr a of
        Inl _ \<Rightarrow> None
      | Inr enc \<Rightarrow> if length enc = 0 then None
                   else (case DecodeBytes decodeAccount enc of Inl _ \<Rightarrow> None | Inr acc \<Rightarrow> Some acc))"

definition base_view :: "database \<Rightarrow> address trie_fun \<Rightarrow> address \<Rightarrow> aview option" where
  "base_view db tr a = map_option (\<lambda>acc. obj_view db (newObject a acc)) (load_account tr a)"

definition acct_view :: "database \<Rightarrow> stateDB \<Rightarrow> address \<Rightarrow> aview option" where
  "acct_view db s a =
     (case stateObjects s a of
        Some ob \<Rightarrow> if deleted ob then None else Some (obj_view db ob)
      | None \<Rightarrow> base_view db (sdb_trie s) a)"

record world =
  w_acct :: "address \<Rightarrow> aview option"
  w_base :: "address \<Rightarrow> aview option"
  w_refund :: int
  w_logs :: "hash \<Rightarrow> Log list"
  w_logSize :: uint64
  w_preimages :: "hash \<rightharpoonup> bytes"
  w_thash :: hash
  w_bhash :: hash
  w_txIndex :: int

definition world_of :: "database \<Rightarrow> stateDB \<Rightarrow> world" where
  "world_of db s =
     \<lparr>w_acct = acct_view db s, w_base = base_view db (sdb_trie s), w_refund = refund s,
      w_logs = (\<lambda>h. log_list h s), w_logSize = logSize s, w_preimages = preimages s,
      w_thash = thash s, w_bhash = bhash s, w_txIndex = txIndex s\<rparr>"

subsection \<open>The invariant\<close>

text \<open>
  The database opens an empty storage trie for the zero root.  Code hashes have 32 bytes, an object
  is filed under its address, a deleted object has no account in the trie, and the objects kept by
  the journal are proper ones.
\<close>

definition db_ok :: "database \<Rightarrow> bool" where
  "db_ok db \<longleftrightarrow> (\<forall>h. OpenStorageTrie db h 0 = Inr empty_trie)"

definition obj_ok :: "address \<Rightarrow> stateObject \<Rightarrow> bool" where
  "obj_ok a ob \<longleftrightarrow> so_address ob = a \<and> length (CodeHash (so_data ob)) = 32"

definition trie_ok :: "address trie_fun \<Rightarrow> bool" where
  "trie_ok tr \<longleftrightarrow> (\<forall>a acc. load_account tr a = Some acc \<longrightarrow> length (CodeHash acc) = 32)"

fun entry_ok :: "journalEntry \<Rightarrow> bool" where
  "entry_ok (resetObjectChange p) = (obj_ok (so_address p) p \<and> \<not> deleted p)"
| "entry_ok _ = True"

definition sdb_inv :: "stateDB \<Rightarrow> bool" where
  "sdb_inv s \<longleftrightarrow>
     (\<forall>a ob. stateObjects s a = Some ob \<longrightarrow>
        obj_ok a ob \<and> (deleted ob \<longrightarrow> load_account (sdb_trie s) a = None)) \<and>
     trie_ok (sdb_trie s) \<and> list_all entry_ok (journal s)"

section \<open>Lemmas\<close>

lemma BytesToHash_hash_bytes [simp]: "BytesToHash (hash_bytes h) = h"
  using unsigned_less [of h, where ?'a = nat] by (simp add: BytesToHash_def hash_bytes_def be_nat_be_fixed)

lemma length_hash_bytes [simp]: "length (hash_bytes h) = 32"
  by (simp add: hash_bytes_def length_be_fixed)

lemma hash_bytes_BytesToHash: "length b = 32 \<Longrightarrow> hash_bytes (BytesToHash b) = b"
  using be_nat_less [of b] be_fixed_be_nat [of b]
  by (simp add: BytesToHash_def hash_bytes_def unat_of_nat)

subsection \<open>Getters and caches\<close>

lemma so_setError_sel [simp]:
  "so_address (so_setError e ob) = so_address ob" "so_data (so_setError e ob) = so_data ob"
  "so_trie (so_setError e ob) = so_trie ob" "so_code (so_setError e ob) = so_code ob"
  "cachedStorage (so_setError e ob) = cachedStorage ob"
  "cachedStorageByteArray (so_setError e ob) = cachedStorageByteArray ob"
  "dirtyStorage (so_setError e ob) = dirtyStorage ob"
  "dirtyStorageByteArray (so_setError e ob) = dirtyStorageByteArray ob"
  "suicided (so_setError e ob) = suicided ob" "deleted (so_setError e ob) = deleted ob"
  "touched (so_setError e ob) = touched ob" "onDirty (so_setError e ob) = onDirty ob"
  by (simp_all add: so_setError_def)

text \<open>The fields that a view depends on.\<close>

definition trie_of :: "database \<Rightarrow> stateObject \<Rightarrow> hash trie_fun" where
  "trie_of db ob = fst (getTrie db ob)"

lemma case_getTrie: "(case getTrie db ob of (t, ob1) \<Rightarrow> f t ob1) = f (trie_of db ob) (snd (getTrie db ob))"
  by (simp add: trie_of_def split: prod.splits)

lemma getTrie_obj [simp]:
  "so_address (snd (getTrie db ob)) = so_address ob" "so_data (snd (getTrie db ob)) = so_data ob"
  "so_trie (snd (getTrie db ob)) = Some (trie_of db ob)" "so_code (snd (getTrie db ob)) = so_code ob"
  "cachedStorage (snd (getTrie db ob)) = cachedStorage ob"
  "cachedStorageByteArray (snd (getTrie db ob)) = cachedStorageByteArray ob"
  "dirtyStorage (snd (getTrie db ob)) = dirtyStorage ob"
  "dirtyStorageByteArray (snd (getTrie db ob)) = dirtyStorageByteArray ob"
  "suicided (snd (getTrie db ob)) = suicided ob" "deleted (snd (getTrie db ob)) = deleted ob"
  "touched (snd (getTrie db ob)) = touched ob" "onDirty (snd (getTrie db ob)) = onDirty ob"
  by (auto simp: trie_of_def getTrie_def split: option.splits sum.splits)

lemma trie_of_cong:
  "so_trie ob' = so_trie ob \<Longrightarrow> so_address ob' = so_address ob \<Longrightarrow> Root (so_data ob') = Root (so_data ob)
   \<Longrightarrow> trie_of db ob' = trie_of db ob"
  by (auto simp: trie_of_def getTrie_def split: option.splits sum.splits)

lemma trie_of_upd [simp]:
  "trie_of db (ob\<lparr>so_code := c\<rparr>) = trie_of db ob"
  "trie_of db (ob\<lparr>cachedStorage := m\<rparr>) = trie_of db ob"
  "trie_of db (ob\<lparr>dirtyStorage := m\<rparr>) = trie_of db ob"
  "trie_of db (ob\<lparr>cachedStorageByteArray := m'\<rparr>) = trie_of db ob"
  "trie_of db (ob\<lparr>dirtyStorageByteArray := m'\<rparr>) = trie_of db ob"
  "trie_of db (ob\<lparr>dirtyCode := b\<rparr>) = trie_of db ob"
  "trie_of db (ob\<lparr>suicided := b\<rparr>) = trie_of db ob"
  "trie_of db (ob\<lparr>touched := b\<rparr>) = trie_of db ob"
  "trie_of db (ob\<lparr>deleted := b\<rparr>) = trie_of db ob"
  "trie_of db (ob\<lparr>onDirty := b\<rparr>) = trie_of db ob"
  "Root acc = Root (so_data ob) \<Longrightarrow> trie_of db (ob\<lparr>so_data := acc\<rparr>) = trie_of db ob"
  "trie_of db (so_setError e ob) = trie_of db ob"
  by (rule trie_of_cong; simp)+

lemma trie_of_getTrie [simp]: "trie_of db (snd (getTrie db ob)) = trie_of db ob"
  by (auto simp: trie_of_def getTrie_def split: option.splits sum.splits)

lemma trie_of_Some [simp]: "so_trie ob = Some t \<Longrightarrow> trie_of db ob = t"
  by (simp add: trie_of_def getTrie_def)

definition word_at :: "hash trie_fun \<Rightarrow> hash \<Rightarrow> hash result" where
  "word_at tr k =
     (case TryGet tr k of
        Inl _ \<Rightarrow> Inr 0
      | Inr enc \<Rightarrow> if length enc > 0 then
          (case Split enc of Inl (Panic m) \<Rightarrow> Inl (Panic m) | Inl (Err m) \<Rightarrow> Inr 0
           | Inr (_, content, _) \<Rightarrow> Inr (BytesToHash content)) else Inr 0)"

definition array_at :: "hash trie_fun \<Rightarrow> hash \<Rightarrow> bytes" where
  "array_at tr k = (case TryGet tr k of Inl _ \<Rightarrow> [] | Inr v \<Rightarrow> v)"

definition words_view :: "(hash \<rightharpoonup> hash) \<Rightarrow> hash trie_fun \<Rightarrow> hash \<Rightarrow> hash result" where
  "words_view m tr k = (case m k of Some v \<Rightarrow> Inr v | None \<Rightarrow> word_at tr k)"

definition arrays_view :: "(hash \<rightharpoonup> bytes) \<Rightarrow> hash trie_fun \<Rightarrow> hash \<Rightarrow> bytes" where
  "arrays_view m tr k = (case m k of Some v \<Rightarrow> v | None \<Rightarrow> array_at tr k)"

lemma words_view_upd: "words_view (m(k \<mapsto> v)) tr = (words_view m tr)(k := Inr v)"
  by (auto simp: words_view_def)

lemma arrays_view_upd: "arrays_view (m(k \<mapsto> v)) tr = (arrays_view m tr)(k := v)"
  by (auto simp: arrays_view_def)

lemma so_GetState_cases:
  obtains (hit) "so_GetState db k ob = (words_view (cachedStorage ob) (trie_of db ob) k, ob)"
    | (miss) e where "so_GetState db k ob =
        (words_view (cachedStorage ob) (trie_of db ob) k, setError_opt e (snd (getTrie db ob)))"
    | (fill) v where "words_view (cachedStorage ob) (trie_of db ob) k = Inr v"
        "so_GetState db k ob = (Inr v, (snd (getTrie db ob))\<lparr>cachedStorage := (cachedStorage ob)(k \<mapsto> v)\<rparr>)"
proof (cases "cachedStorage ob k")
  case (Some v)
  then show ?thesis using hit by (simp add: so_GetState_def words_view_def)
next
  case None
  show ?thesis
  proof (cases "TryGet (trie_of db ob) k")
    case (Inl e)
    with None miss [of "Some e"] show ?thesis
      by (simp add: so_GetState_def words_view_def word_at_def case_getTrie setError_opt_def)
  next
    case (Inr enc)
    show ?thesis
    proof (cases "enc = []")
      case True
      with None Inr miss [of None] show ?thesis
        by (simp add: so_GetState_def words_view_def word_at_def case_getTrie setError_opt_def)
    next
      case False
      show ?thesis
      proof (cases "Split enc")
        case (Inl e)
        with None Inr False miss [of "case e of Panic m \<Rightarrow> None | Err m \<Rightarrow> Some (Err m)"] show ?thesis
          by (cases e) (simp_all add: so_GetState_def words_view_def word_at_def case_getTrie setError_opt_def)
      next
        case Inr2: (Inr t)
        obtain kd c r where "t = (kd, c, r)" by (cases t)
        with None Inr False Inr2 miss [of None] fill [of "BytesToHash c"] show ?thesis
          by (cases "BytesToHash c = 0")
            (simp_all add: so_GetState_def words_view_def word_at_def case_getTrie setError_opt_def Let_def)
      qed
    qed
  qed
qed

lemma so_GetStateByteArray_cases:
  obtains (hit) "so_GetStateByteArray db k ob = (arrays_view (cachedStorageByteArray ob) (trie_of db ob) k, ob)"
    | (miss) "so_GetStateByteArray db k ob =
        (arrays_view (cachedStorageByteArray ob) (trie_of db ob) k, snd (getTrie db ob))"
    | (fill) v where "arrays_view (cachedStorageByteArray ob) (trie_of db ob) k = v"
        "so_GetStateByteArray db k ob =
           (v, (snd (getTrie db ob))\<lparr>cachedStorageByteArray := (cachedStorageByteArray ob)(k \<mapsto> v)\<rparr>)"
proof (cases "cachedStorageByteArray ob k")
  case (Some v)
  then show ?thesis using hit by (simp add: so_GetStateByteArray_def arrays_view_def)
next
  case None
  show ?thesis
  proof (cases "TryGet (trie_of db ob) k")
    case (Inl e)
    with None miss show ?thesis
      by (simp add: so_GetStateByteArray_def arrays_view_def array_at_def case_getTrie)
  next
    case (Inr v)
    with None miss fill [of v] show ?thesis
      by (cases "v = []") (simp_all add: so_GetStateByteArray_def arrays_view_def array_at_def case_getTrie)
  qed
qed

lemma fst_so_GetState: "fst (so_GetState db k ob) = words_view (cachedStorage ob) (trie_of db ob) k"
  by (cases rule: so_GetState_cases [of db k ob]) simp_all

lemma fst_so_GetStateByteArray:
  "fst (so_GetStateByteArray db k ob) = arrays_view (cachedStorageByteArray ob) (trie_of db ob) k"
  by (cases rule: so_GetStateByteArray_cases [of db k ob]) simp_all

definition code_of :: "database \<Rightarrow> address \<Rightarrow> bytes \<Rightarrow> bytes option \<Rightarrow> bytes option" where
  "code_of db a ch c =
     (case c of Some x \<Rightarrow> Some x
      | None \<Rightarrow> if ch = emptyCodeHash db then None
               else (case ContractCode db (Keccak256 db (address_bytes a)) (BytesToHash ch) of
                       Inl _ \<Rightarrow> None | Inr x \<Rightarrow> Some x))"

lemma fst_so_Code: "fst (so_Code db ob) = code_of db (so_address ob) (CodeHash (so_data ob)) (so_code ob)"
  by (simp add: so_Code_def code_of_def split: option.splits sum.splits)

lemma obj_view_eq:
  "obj_view db ob =
     \<lparr>v_nonce = Nonce (so_data ob), v_balance = Balance (so_data ob),
      v_codehash = BytesToHash (CodeHash (so_data ob)),
      v_code = code_of db (so_address ob) (CodeHash (so_data ob)) (so_code ob),
      v_suicided = suicided ob,
      v_storage = words_view (cachedStorage ob) (trie_of db ob),
      v_bytes = arrays_view (cachedStorageByteArray ob) (trie_of db ob)\<rparr>"
  by (simp add: obj_view_def fst_so_GetState fst_so_GetStateByteArray fst_so_Code)

text \<open>A getter keeps the view, the address, the flags and the data of an object.\<close>

definition same_obj :: "database \<Rightarrow> stateObject \<Rightarrow> stateObject \<Rightarrow> bool" where
  "same_obj db ob ob' \<longleftrightarrow> obj_view db ob' = obj_view db ob \<and> so_address ob' = so_address ob \<and>
     deleted ob' = deleted ob \<and> so_data ob' = so_data ob \<and> onDirty ob' = onDirty ob \<and>
     touched ob' = touched ob \<and> dirtyStorage ob' = dirtyStorage ob \<and>
     dirtyStorageByteArray ob' = dirtyStorageByteArray ob"

lemma same_obj_getTrie: "same_obj db ob (snd (getTrie db ob))"
  by (simp add: same_obj_def obj_view_eq)

lemma setError_opt_sel [simp]:
  "so_address (setError_opt e ob) = so_address ob" "so_data (setError_opt e ob) = so_data ob"
  "so_trie (setError_opt e ob) = so_trie ob" "so_code (setError_opt e ob) = so_code ob"
  "cachedStorage (setError_opt e ob) = cachedStorage ob"
  "cachedStorageByteArray (setError_opt e ob) = cachedStorageByteArray ob"
  "dirtyStorage (setError_opt e ob) = dirtyStorage ob"
  "dirtyStorageByteArray (setError_opt e ob) = dirtyStorageByteArray ob"
  "suicided (setError_opt e ob) = suicided ob" "deleted (setError_opt e ob) = deleted ob"
  "touched (setError_opt e ob) = touched ob" "onDirty (setError_opt e ob) = onDirty ob"
  by (simp_all add: setError_opt_def split: option.splits)

lemma same_obj_GetState: "same_obj db ob (snd (so_GetState db k ob))"
  by (cases rule: so_GetState_cases [of db k ob])
     (simp_all add: same_obj_def obj_view_eq words_view_upd fun_upd_idem)

lemma same_obj_GetStateByteArray: "same_obj db ob (snd (so_GetStateByteArray db k ob))"
  by (cases rule: so_GetStateByteArray_cases [of db k ob])
     (simp_all add: same_obj_def obj_view_eq arrays_view_upd fun_upd_idem)

lemma same_obj_Code: "same_obj db ob (snd (so_Code db ob))"
  by (auto simp: so_Code_def same_obj_def obj_view_eq code_of_def split: option.splits sum.splits)

subsection \<open>Storing objects\<close>

lemma world_of_meta [simp]:
  "world_of db (s\<lparr>stateObjectsDirty := D\<rparr>) = world_of db s"
  "world_of db (s\<lparr>journal := J\<rparr>) = world_of db s"
  "world_of db (s\<lparr>sdb_dbErr := e\<rparr>) = world_of db s"
  "world_of db (s\<lparr>validRevisions := R\<rparr>) = world_of db s"
  "world_of db (s\<lparr>nextRevisionId := i\<rparr>) = world_of db s"
  by (simp_all add: world_of_def acct_view_def log_list_def fun_eq_iff split: option.split)

lemma w_acct_world_of: "w_acct (world_of db s) = acct_view db s"
  and w_base_world_of: "w_base (world_of db s) = base_view db (sdb_trie s)"
  by (simp_all add: world_of_def)

lemma world_of_append_journal [simp]: "world_of db (append_journal e s) = world_of db s"
  by (simp add: append_journal_def)

lemma world_of_setError [simp]: "world_of db (sdb_setError e s) = world_of db s"
  by (simp add: sdb_setError_def)

lemma append_journal_sel [simp]:
  "journal (append_journal e s) = journal s @ [e]" "stateObjects (append_journal e s) = stateObjects s"
  "sdb_trie (append_journal e s) = sdb_trie s" "validRevisions (append_journal e s) = validRevisions s"
  "nextRevisionId (append_journal e s) = nextRevisionId s"
  "stateObjectsDirty (append_journal e s) = stateObjectsDirty s"
  by (simp_all add: append_journal_def)

lemma sdb_setError_sel [simp]:
  "journal (sdb_setError e s) = journal s" "stateObjects (sdb_setError e s) = stateObjects s"
  "sdb_trie (sdb_setError e s) = sdb_trie s" "validRevisions (sdb_setError e s) = validRevisions s"
  "nextRevisionId (sdb_setError e s) = nextRevisionId s"
  "stateObjectsDirty (sdb_setError e s) = stateObjectsDirty s"
  by (simp_all add: sdb_setError_def)

lemma setStateObject_sel [simp]:
  "journal (setStateObject ob s) = journal s"
  "stateObjects (setStateObject ob s) = (stateObjects s)(so_address ob \<mapsto> ob)"
  "sdb_trie (setStateObject ob s) = sdb_trie s" "validRevisions (setStateObject ob s) = validRevisions s"
  "nextRevisionId (setStateObject ob s) = nextRevisionId s"
  "stateObjectsDirty (setStateObject ob s) = stateObjectsDirty s"
  by (simp_all add: setStateObject_def)

lemma world_of_setStateObject:
  "world_of db (setStateObject ob s) =
     (world_of db s)\<lparr>w_acct := (w_acct (world_of db s))
        (so_address ob := (if deleted ob then None else Some (obj_view db ob)))\<rparr>"
  by (simp add: world_of_def acct_view_def log_list_def fun_eq_iff setStateObject_def split: option.split)

lemma fire_onDirty_eq:
  "fire_onDirty (ob, s) =
     (ob\<lparr>onDirty := False\<rparr>,
      s\<lparr>stateObjectsDirty := (if onDirty ob then insert (so_address ob) (stateObjectsDirty s)
                             else stateObjectsDirty s)\<rparr>)"
  by (cases "onDirty ob") (simp_all add: fire_onDirty_def MarkStateObjectDirty_def)

lemma sdb_inv_meta [simp]:
  "sdb_inv (s\<lparr>stateObjectsDirty := D\<rparr>) = sdb_inv s" "sdb_inv (sdb_setError e s) = sdb_inv s"
  "sdb_inv (s\<lparr>validRevisions := R\<rparr>) = sdb_inv s" "sdb_inv (s\<lparr>nextRevisionId := i\<rparr>) = sdb_inv s"
  "sdb_inv (append_journal je s) = (sdb_inv s \<and> entry_ok je)"
  by (auto simp: sdb_inv_def)

lemma sdb_inv_setStateObject:
  "sdb_inv s \<Longrightarrow> obj_ok (so_address ob) ob \<Longrightarrow> \<not> deleted ob \<Longrightarrow> sdb_inv (setStateObject ob s)"
  by (simp add: sdb_inv_def)

text \<open>\<open>holds a ob s\<close>: the object that \<^verbatim>\<open>getStateObject\<close> hands out for \<open>a\<close>.\<close>

definition holds :: "address \<Rightarrow> stateObject \<Rightarrow> stateDB \<Rightarrow> bool" where
  "holds a ob s \<longleftrightarrow> sdb_inv s \<and> stateObjects s a = Some ob \<and> obj_ok a ob \<and> \<not> deleted ob"

lemma holds_view: "holds a ob s \<Longrightarrow> w_acct (world_of db s) a = Some (obj_view db ob)"
  by (simp add: holds_def world_of_def acct_view_def)

lemma load_getStateObject:
  "stateObjects s a = None \<Longrightarrow>
   (\<exists>e. load_account (sdb_trie s) a = None \<and> getStateObject a s = (None, sdb_setError e s)) \<or>
   (\<exists>acc. load_account (sdb_trie s) a = Some acc \<and>
      getStateObject a s = (Some (newObject a acc), setStateObject (newObject a acc) s))"
proof -
  assume none: "stateObjects s a = None"
  have id: "sdb_setError None s = s" by (simp add: sdb_setError_def)
  show ?thesis
  proof (cases "TryGet (sdb_trie s) a")
    case (Inl e)
    with none show ?thesis by (auto simp: load_account_def getStateObject_def)
  next
    case (Inr enc)
    with none id show ?thesis
      by (cases "enc = []"; cases "DecodeBytes decodeAccount enc")
         (auto simp: load_account_def getStateObject_def Let_def, metis+)
  qed
qed

lemma getStateObject_cases:
  assumes "sdb_inv s"
  obtains (absent) s1 where "getStateObject a s = (None, s1)" "w_acct (world_of db s) a = None"
      "w_base (world_of db s) a = None" "world_of db s1 = world_of db s" "sdb_inv s1" "journal s1 = journal s"
      "validRevisions s1 = validRevisions s" "nextRevisionId s1 = nextRevisionId s"
      "stateObjects s1 = stateObjects s" "sdb_trie s1 = sdb_trie s"
  | (present) ob s1 where "getStateObject a s = (Some ob, s1)" "w_acct (world_of db s) a = Some (obj_view db ob)"
      "holds a ob s1" "world_of db s1 = world_of db s" "journal s1 = journal s"
      "validRevisions s1 = validRevisions s" "nextRevisionId s1 = nextRevisionId s"
proof (cases "stateObjects s a")
  case (Some ob)
  show ?thesis
  proof (cases "deleted ob")
    case True
    with Some assms have "load_account (sdb_trie s) a = None" by (auto simp: sdb_inv_def)
    with Some True assms absent [of s] show ?thesis
      by (simp add: getStateObject_def world_of_def acct_view_def base_view_def)
  next
    case False
    with Some assms present [of ob s] show ?thesis
      by (simp add: getStateObject_def world_of_def acct_view_def holds_def sdb_inv_def)
  qed
next
  case None
  from load_getStateObject [OF this] show ?thesis
  proof (elim disjE exE conjE)
    fix e assume "load_account (sdb_trie s) a = None" "getStateObject a s = (None, sdb_setError e s)"
    with None assms absent [of "sdb_setError e s"] show ?thesis
      by (simp add: w_acct_world_of w_base_world_of acct_view_def base_view_def)
  next
    fix acc assume l: "load_account (sdb_trie s) a = Some acc"
      and g: "getStateObject a s = (Some (newObject a acc), setStateObject (newObject a acc) s)"
    let ?ob = "newObject a acc"
    have v: "w_acct (world_of db s) a = Some (obj_view db ?ob)"
      using None l by (simp add: world_of_def acct_view_def base_view_def)
    have n: "so_address ?ob = a" "\<not> deleted ?ob" by (simp_all add: newObject_def)
    have ok: "obj_ok a ?ob" using assms l by (auto simp: sdb_inv_def trie_ok_def obj_ok_def newObject_def)
    have "world_of db (setStateObject ?ob s) = world_of db s"
      unfolding world_of_setStateObject using v n by (simp add: fun_upd_idem)
    moreover have "holds a ?ob (setStateObject ?ob s)"
      using n ok assms by (simp add: holds_def sdb_inv_setStateObject)
    ultimately show ?thesis using present [OF g v] by simp
  qed
qed

subsection \<open>The observable effect of undoing\<close>

definition wUpd :: "address \<Rightarrow> (aview \<Rightarrow> aview) \<Rightarrow> world \<Rightarrow> world" where
  "wUpd a g w = w\<lparr>w_acct := (w_acct w)(a := map_option g (w_acct w a))\<rparr>"

definition wWith :: "address \<Rightarrow> (aview \<Rightarrow> aview) \<Rightarrow> world \<Rightarrow> world option" where
  "wWith a g w = (if w_acct w a = None then None else Some (wUpd a g w))"

fun wundo :: "database \<Rightarrow> journalEntry \<Rightarrow> world \<Rightarrow> world option" where
  "wundo db (createObjectChange a) w = Some (w\<lparr>w_acct := (w_acct w)(a := w_base w a)\<rparr>)"
| "wundo db (resetObjectChange p) w = Some (w\<lparr>w_acct := (w_acct w)(so_address p \<mapsto> obj_view db p)\<rparr>)"
| "wundo db (suicideChange a p b) w = Some (wUpd a (\<lambda>v. v\<lparr>v_suicided := p, v_balance := b\<rparr>) w)"
| "wundo db (touchChange a p d) w = (if \<not> p \<and> a \<noteq> ripemd then wWith a id w else Some w)"
| "wundo db (balanceChange a p) w = wWith a (\<lambda>v. v\<lparr>v_balance := p\<rparr>) w"
| "wundo db (nonceChange a p) w = wWith a (\<lambda>v. v\<lparr>v_nonce := p\<rparr>) w"
| "wundo db (codeChange a c h) w =
     wWith a (\<lambda>v. v\<lparr>v_codehash := BytesToHash h, v_code := code_of db a (hash_bytes (BytesToHash h)) c\<rparr>) w"
| "wundo db (storageChange a k p) w = wWith a (\<lambda>v. v\<lparr>v_storage := (v_storage v)(k := Inr p)\<rparr>) w"
| "wundo db (storageByteArrayChange a k p) w = wWith a (\<lambda>v. v\<lparr>v_bytes := (v_bytes v)(k := p)\<rparr>) w"
| "wundo db (refundChange p) w = Some (w\<lparr>w_refund := p\<rparr>)"
| "wundo db (addLogChange h) w =
     (if w_logs w h = [] then None
      else Some (w\<lparr>w_logs := (w_logs w)(h := butlast (w_logs w h)), w_logSize := w_logSize w - 1\<rparr>))"
| "wundo db (addPreimageChange h) w = Some (w\<lparr>w_preimages := (w_preimages w)(h := None)\<rparr>)"

lemma wUpd_fire:
  assumes "holds a ob s" and "obj_ok a ob'" and "\<not> deleted ob'" and "obj_view db ob' = g (obj_view db ob)"
  shows "world_of db (store_obj (fire_onDirty (ob', s))) = wUpd a g (world_of db s)"
    and "sdb_inv (store_obj (fire_onDirty (ob', s)))"
    and "journal (store_obj (fire_onDirty (ob', s))) = journal s"
    and "validRevisions (store_obj (fire_onDirty (ob', s))) = validRevisions s"
    and "nextRevisionId (store_obj (fire_onDirty (ob', s))) = nextRevisionId s"
proof -
  have v: "obj_view db (ob'\<lparr>onDirty := b\<rparr>) = obj_view db ob'" for b by (simp add: obj_view_eq)
  have "so_address ob' = a" using assms(2) by (simp add: obj_ok_def)
  with assms show "world_of db (store_obj (fire_onDirty (ob', s))) = wUpd a g (world_of db s)"
    by (simp add: fire_onDirty_eq store_obj_def world_of_setStateObject v wUpd_def holds_view [OF assms(1)])
  show "sdb_inv (store_obj (fire_onDirty (ob', s)))"
    using assms by (auto simp: fire_onDirty_eq store_obj_def holds_def obj_ok_def intro!: sdb_inv_setStateObject)
qed (simp_all add: fire_onDirty_eq store_obj_def)

lemma obj_ok_sel: "obj_ok a ob \<Longrightarrow> so_address ob = a" "obj_ok a ob \<Longrightarrow> length (CodeHash (so_data ob)) = 32"
  by (simp_all add: obj_ok_def)

text \<open>The unjournaled setters of an object, seen from outside.\<close>

lemma setters_view:
  assumes "holds a ob s"
  shows "world_of db (store_obj (so_setBalance n (ob, s))) = wUpd a (\<lambda>v. v\<lparr>v_balance := n\<rparr>) (world_of db s)"
    and "world_of db (store_obj (so_setNonce k (ob, s))) = wUpd a (\<lambda>v. v\<lparr>v_nonce := k\<rparr>) (world_of db s)"
    and "world_of db (store_obj (so_setCode h c (ob, s))) =
           wUpd a (\<lambda>v. v\<lparr>v_codehash := h, v_code := code_of db a (hash_bytes h) c\<rparr>) (world_of db s)"
    and "world_of db (store_obj (so_setState key w (ob, s))) =
           wUpd a (\<lambda>v. v\<lparr>v_storage := (v_storage v)(key := Inr w)\<rparr>) (world_of db s)"
    and "world_of db (store_obj (so_setStateByteArray key b (ob, s))) =
           wUpd a (\<lambda>v. v\<lparr>v_bytes := (v_bytes v)(key := b)\<rparr>) (world_of db s)"
  unfolding so_setBalance_def so_setNonce_def so_setCode_def so_setState_def so_setStateByteArray_def prod.case
  using assms
  by (intro wUpd_fire(1) [OF assms];
      simp add: holds_def obj_ok_def obj_view_eq words_view_upd arrays_view_upd)+

lemma setters_meta:
  assumes "holds a ob s"
  shows "sdb_inv (store_obj (so_setBalance n (ob, s)))" "journal (store_obj (so_setBalance n (ob, s))) = journal s"
    "validRevisions (store_obj (so_setBalance n (ob, s))) = validRevisions s"
    "nextRevisionId (store_obj (so_setBalance n (ob, s))) = nextRevisionId s"
    and "sdb_inv (store_obj (so_setNonce k (ob, s)))" "journal (store_obj (so_setNonce k (ob, s))) = journal s"
    "validRevisions (store_obj (so_setNonce k (ob, s))) = validRevisions s"
    "nextRevisionId (store_obj (so_setNonce k (ob, s))) = nextRevisionId s"
    and "sdb_inv (store_obj (so_setCode h c (ob, s)))" "journal (store_obj (so_setCode h c (ob, s))) = journal s"
    "validRevisions (store_obj (so_setCode h c (ob, s))) = validRevisions s"
    "nextRevisionId (store_obj (so_setCode h c (ob, s))) = nextRevisionId s"
    and "sdb_inv (store_obj (so_setState key w (ob, s)))" "journal (store_obj (so_setState key w (ob, s))) = journal s"
    "validRevisions (store_obj (so_setState key w (ob, s))) = validRevisions s"
    "nextRevisionId (store_obj (so_setState key w (ob, s))) = nextRevisionId s"
    and "sdb_inv (store_obj (so_setStateByteArray key b (ob, s)))"
    "journal (store_obj (so_setStateByteArray key b (ob, s))) = journal s"
    "validRevisions (store_obj (so_setStateByteArray key b (ob, s))) = validRevisions s"
    "nextRevisionId (store_obj (so_setStateByteArray key b (ob, s))) = nextRevisionId s"
  using assms
  by (auto simp: so_setBalance_def so_setNonce_def so_setCode_def so_setState_def so_setStateByteArray_def
      fire_onDirty_eq store_obj_def holds_def obj_ok_def intro!: sdb_inv_setStateObject)

text \<open>Undoing an entry has the effect \<open>wundo\<close> and panics only where \<open>wundo\<close> is undefined.\<close>

definition undone :: "database \<Rightarrow> stateDB \<Rightarrow> world \<Rightarrow> stateDB \<Rightarrow> bool" where
  "undone db s w s' \<longleftrightarrow> world_of db s' = w \<and> sdb_inv s' \<and> journal s' = journal s \<and>
     validRevisions s' = validRevisions s \<and> nextRevisionId s' = nextRevisionId s"

lemma with_obj_undone:
  assumes "sdb_inv s" and "wWith a g (world_of db s) = Some w"
    and "\<And>ob s1. holds a ob s1 \<Longrightarrow> world_of db (store_obj (f (ob, s1))) = wUpd a g (world_of db s1) \<and>
           sdb_inv (store_obj (f (ob, s1))) \<and> journal (store_obj (f (ob, s1))) = journal s1 \<and>
           validRevisions (store_obj (f (ob, s1))) = validRevisions s1 \<and>
           nextRevisionId (store_obj (f (ob, s1))) = nextRevisionId s1"
  shows "\<exists>s'. with_obj a f s = Inr s' \<and> undone db s w s'"
  using assms(1)
proof (cases rule: getStateObject_cases [where a = a and db = db])
  case (absent s1)
  with assms(2) show ?thesis by (simp add: wWith_def)
next
  case (present ob s1)
  with assms(2) assms(3) [OF present(3)] show ?thesis
    by (auto simp: with_obj_def wWith_def undone_def split: if_splits)
qed

lemma undo_undone:
  assumes "sdb_inv s" and "entry_ok e" and "wundo db e (world_of db s) = Some w"
  shows "\<exists>s'. undo e s = Inr s' \<and> undone db s w s'"
proof (cases e)
  case (createObjectChange a)
  have "acct_view db (s\<lparr>stateObjects := (stateObjects s)(a := None), stateObjectsDirty := D\<rparr>) =
      (acct_view db s)(a := base_view db (sdb_trie s) a)" for D
    by (auto simp: acct_view_def fun_eq_iff split: option.split)
  with assms createObjectChange show ?thesis
    by (auto simp: undone_def world_of_def sdb_inv_def log_list_def)
next
  case (resetObjectChange p)
  with assms show ?thesis
    by (auto simp: undone_def world_of_setStateObject sdb_inv_setStateObject)
next
  case (suicideChange a p b)
  from assms(1) show ?thesis
  proof (cases rule: getStateObject_cases [where a = a and db = db])
    case (absent s1)
    with assms(3) suicideChange show ?thesis by (auto simp: undone_def wUpd_def fun_upd_idem)
  next
    case (present ob s1)
    let ?ob = "ob\<lparr>suicided := p\<rparr>"
    have h: "holds a ?ob (setStateObject ?ob s1)"
      using present(3) by (auto simp: holds_def obj_ok_def intro!: sdb_inv_setStateObject)
    have "store_obj (so_setBalance b (?ob, s1)) = store_obj (so_setBalance b (?ob, setStateObject ?ob s1))"
      by (simp add: store_obj_def so_setBalance_def fire_onDirty_eq setStateObject_def)
    moreover have "world_of db (setStateObject ?ob s1) = wUpd a (\<lambda>v. v\<lparr>v_suicided := p\<rparr>) (world_of db s)"
      using present by (auto simp: world_of_setStateObject wUpd_def holds_def obj_ok_def obj_view_eq)
    ultimately show ?thesis
      using assms(3) suicideChange present setters_view(1) [OF h, of db b] setters_meta(1-4) [OF h, of b]
      by (auto simp: undone_def wUpd_def)
  qed
next
  case (touchChange a p d)
  show ?thesis
  proof (cases "\<not> p \<and> a \<noteq> ripemd")
    case True
    have "\<exists>s'. with_obj a (\<lambda>(ob, s1). (ob\<lparr>touched := p\<rparr>, s1)) s = Inr s' \<and> undone db s w s'"
    proof (rule with_obj_undone [OF assms(1)])
      show "wWith a id (world_of db s) = Some w" using assms(3) touchChange True by simp
      fix ob s1 assume "holds a ob s1"
      then show "world_of db (store_obj (case (ob, s1) of (ob, s1) \<Rightarrow> (ob\<lparr>touched := p\<rparr>, s1))) = wUpd a id (world_of db s1) \<and>
           sdb_inv (store_obj (case (ob, s1) of (ob, s1) \<Rightarrow> (ob\<lparr>touched := p\<rparr>, s1))) \<and>
           journal (store_obj (case (ob, s1) of (ob, s1) \<Rightarrow> (ob\<lparr>touched := p\<rparr>, s1))) = journal s1 \<and>
           validRevisions (store_obj (case (ob, s1) of (ob, s1) \<Rightarrow> (ob\<lparr>touched := p\<rparr>, s1))) = validRevisions s1 \<and>
           nextRevisionId (store_obj (case (ob, s1) of (ob, s1) \<Rightarrow> (ob\<lparr>touched := p\<rparr>, s1))) = nextRevisionId s1"
        using holds_view [of a ob s1 db]
        by (auto simp: store_obj_def world_of_setStateObject wUpd_def obj_view_eq holds_def obj_ok_def
            intro!: sdb_inv_setStateObject)
    qed
    then obtain s' where "with_obj a (\<lambda>(ob, s1). (ob\<lparr>touched := p\<rparr>, s1)) s = Inr s'" "undone db s w s'"
      by blast
    then show ?thesis using touchChange True by (cases d) (simp_all add: undone_def)
  next
    case False
    with assms touchChange show ?thesis by (auto simp: undone_def)
  qed
next
  case (addLogChange h)
  with assms show ?thesis
    by (auto simp: undone_def log_list_def Let_def world_of_def acct_view_def sdb_inv_def fun_eq_iff
        length_Suc_conv split: option.splits if_splits)
qed (use assms in \<open>auto intro!: with_obj_undone simp: setters_view setters_meta,
      auto simp: undone_def world_of_def acct_view_def sdb_inv_def log_list_def fun_eq_iff split: option.splits\<close>)

subsection \<open>Journaled state\<close>

text \<open>
  A state with a journal whose entries can be undone: \<open>view\<close> is what clients observe and
  \<open>eff\<close> the observable effect of undoing an entry.
\<close>

fun effs :: "('e \<Rightarrow> 'w \<Rightarrow> 'w option) \<Rightarrow> 'e list \<Rightarrow> 'w \<Rightarrow> 'w option" where
  "effs eff [] w = Some w"
| "effs eff (e # es) w = (case eff e w of None \<Rightarrow> None | Some w' \<Rightarrow> effs eff es w')"

lemma effs_append: "effs eff (es @ fs) w = (case effs eff es w of None \<Rightarrow> None | Some w' \<Rightarrow> effs eff fs w')"
  by (induction es arbitrary: w) (auto split: option.splits)

fun undo_seq :: "('e \<Rightarrow> 's \<Rightarrow> 's result) \<Rightarrow> 'e list \<Rightarrow> 's \<Rightarrow> 's result" where
  "undo_seq und [] s = Inr s"
| "undo_seq und (e # es) s = res_bind (und e s) (undo_seq und es)"

locale journaled =
  fixes view :: "'s \<Rightarrow> 'w" and jr :: "'s \<Rightarrow> 'e list" and inv :: "'s \<Rightarrow> bool"
    and und :: "'e \<Rightarrow> 's \<Rightarrow> 's result" and eff :: "'e \<Rightarrow> 'w \<Rightarrow> 'w option"
    and frame :: "'s \<Rightarrow> 'f"
  assumes und_eff: "inv s \<Longrightarrow> e \<in> set (jr s) \<Longrightarrow> eff e (view s) = Some w \<Longrightarrow>
      \<exists>s'. und e s = Inr s' \<and> view s' = w \<and> inv s' \<and> jr s' = jr s \<and> frame s' = frame s"
begin

text \<open>\<open>undoable s s'\<close>: undoing what the journal gained on the way from \<open>s\<close> to \<open>s'\<close>
  restores what was observable in \<open>s\<close>.\<close>

definition undoable :: "'s \<Rightarrow> 's \<Rightarrow> bool" where
  "undoable s s' \<longleftrightarrow> inv s' \<and> frame s' = frame s \<and>
     (\<exists>es. jr s' = jr s @ es \<and> effs eff (rev es) (view s') = Some (view s))"

lemma undoableI:
  "inv s' \<Longrightarrow> frame s' = frame s \<Longrightarrow> jr s' = jr s @ es \<Longrightarrow>
   effs eff (rev es) (view s') = Some (view s) \<Longrightarrow> undoable s s'"
  by (auto simp: undoable_def)

lemma undoable_trans:
  assumes "undoable s t" and "undoable t u"
  shows "undoable s u"
proof -
  obtain es fs where "jr t = jr s @ es" "effs eff (rev es) (view t) = Some (view s)"
      "jr u = jr t @ fs" "effs eff (rev fs) (view u) = Some (view t)"
    using assms by (auto simp: undoable_def)
  then show ?thesis using assms
    by (intro undoableI [where es = "es @ fs"]) (auto simp: undoable_def effs_append)
qed

lemma undo_seq_eff:
  assumes "inv s" and "set es \<subseteq> set (jr s)" and "effs eff es (view s) = Some w"
  shows "\<exists>s'. undo_seq und es s = Inr s' \<and> view s' = w \<and> inv s' \<and> jr s' = jr s \<and> frame s' = frame s"
  using assms
proof (induction es arbitrary: s)
  case (Cons e es)
  then obtain w1 where w1: "eff e (view s) = Some w1" "effs eff es w1 = Some w"
    by (auto split: option.splits)
  obtain s1 where s1: "und e s = Inr s1" "view s1 = w1" "inv s1" "jr s1 = jr s" "frame s1 = frame s"
    using und_eff [OF Cons.prems(1) _ w1(1)] Cons.prems(2) by auto
  with Cons.IH [of s1] Cons.prems(2) w1(2) show ?case by auto
qed simp

text \<open>Undoing back to a journal length restores the view recorded for it.\<close>

lemma undo_to_length:
  assumes "inv s" and "n \<le> length (jr s)" and "effs eff (rev (drop n (jr s))) (view s) = Some w"
  shows "\<exists>s'. undo_seq und (rev (drop n (jr s))) s = Inr s' \<and> view s' = w \<and> inv s' \<and> jr s' = jr s \<and> frame s' = frame s"
  using assms by (intro undo_seq_eff) (auto dest: in_set_dropD)

end

lemma undo_all_seq: "undo_all es s = undo_seq undo es s"
  by (induction es arbitrary: s) (auto simp: fun_eq_iff, metis (no_types, lifting) ext)

interpretation sdbj: journaled "world_of db" journal sdb_inv undo "wundo db"
    "\<lambda>s. (validRevisions s, nextRevisionId s)" for db
proof
  fix s e w assume "sdb_inv s" "e \<in> set (journal s)" "wundo db e (world_of db s) = Some w"
  moreover from this have "entry_ok e" by (auto simp: sdb_inv_def list_all_iff)
  ultimately show "\<exists>s'. undo e s = Inr s' \<and> world_of db s' = w \<and> sdb_inv s' \<and> journal s' = journal s \<and>
      (validRevisions s', nextRevisionId s') = (validRevisions s, nextRevisionId s)"
    using undo_undone [of s e db w] by (auto simp: undone_def)
qed

subsection \<open>Operations are undoable\<close>

definition zero_view :: "database \<Rightarrow> aview" where
  "zero_view db =
     \<lparr>v_nonce = 0, v_balance = 0, v_codehash = Keccak256 db [], v_code = None, v_suicided = False,
      v_storage = (\<lambda>_. Inr 0), v_bytes = (\<lambda>_. [])\<rparr>"

lemma zero_obj_view:
  assumes "db_ok db"
  shows "obj_view db ((newObject a (zeroAccount db))\<lparr>onDirty := b\<rparr>) = zero_view db"
  using assms
  by (simp add: obj_view_eq newObject_def zeroAccount_def zero_view_def emptyCodeHash_def code_of_def
      trie_of_def getTrie_def db_ok_def words_view_def arrays_view_def word_at_def array_at_def
      empty_trie_def TryGet_def fun_eq_iff)

definition wEnsure :: "database \<Rightarrow> address \<Rightarrow> world \<Rightarrow> world" where
  "wEnsure db a w = w\<lparr>w_acct := (w_acct w)(a := Some (case w_acct w a of Some v \<Rightarrow> v | None \<Rightarrow> zero_view db))\<rparr>"

lemma createObject_eq:
  "createObject db a s =
     (let (prev, s1) = getStateObject a s; ob = (newObject a (zeroAccount db))\<lparr>onDirty := False\<rparr>
      in (ob, prev, setStateObject ob
           (append_journal (case prev of None \<Rightarrow> createObjectChange a | Some p \<Rightarrow> resetObjectChange p)
             (s1\<lparr>stateObjectsDirty := insert a (stateObjectsDirty s1)\<rparr>))))"
  by (simp add: createObject_def so_setNonce_def fire_onDirty_eq newObject_def zeroAccount_def Let_def
      split: prod.split)

lemma createObject_spec:
  assumes "db_ok db" and "sdb_inv s" and "createObject db a s = (ob, prev, s1)"
  shows "holds a ob s1" "obj_view db ob = zero_view db"
    "world_of db s1 = (world_of db s)\<lparr>w_acct := (w_acct (world_of db s))(a \<mapsto> zero_view db)\<rparr>"
    "map_option (obj_view db) prev = w_acct (world_of db s) a"
    "sdbj.undoable db s s1"
proof -
  let ?ob = "(newObject a (zeroAccount db))\<lparr>onDirty := False\<rparr>"
  have ok: "obj_ok a ?ob" "\<not> deleted ?ob" by (simp_all add: obj_ok_def newObject_def zeroAccount_def emptyCodeHash_def)
  have ob: "ob = ?ob" using assms(3) by (auto simp: createObject_eq Let_def split: prod.splits)
  then show v: "obj_view db ob = zero_view db" using zero_obj_view [OF assms(1)] by simp
  have "holds a ob s1 \<and> world_of db s1 = (world_of db s)\<lparr>w_acct := (w_acct (world_of db s))(a \<mapsto> zero_view db)\<rparr> \<and>
      map_option (obj_view db) prev = w_acct (world_of db s) a \<and> sdbj.undoable db s s1"
    using assms(2)
  proof (cases rule: getStateObject_cases [where a = a and db = db])
    case (absent s0)
    with assms(3) have s1: "prev = None" "s1 = setStateObject ?ob (append_journal (createObjectChange a)
             (s0\<lparr>stateObjectsDirty := insert a (stateObjectsDirty s0)\<rparr>))"
      by (auto simp: createObject_eq Let_def)
    have h: "holds a ob s1" using ok absent(5) s1 ob by (auto simp: holds_def obj_ok_def intro!: sdb_inv_setStateObject)
    have w: "world_of db s1 = (world_of db s)\<lparr>w_acct := (w_acct (world_of db s))(a \<mapsto> zero_view db)\<rparr>"
      using s1 ok v ob absent(4) by (simp add: world_of_setStateObject obj_ok_def)
    have "sdbj.undoable db s s1"
      by (rule sdbj.undoableI [where es = "[createObjectChange a]"])
         (use h s1 absent w in \<open>simp_all add: holds_def fun_upd_idem\<close>)
    with h w s1(1) absent(2) show ?thesis by simp
  next
    case (present p s0)
    with assms(3) have s1: "prev = Some p" "s1 = setStateObject ?ob (append_journal (resetObjectChange p)
             (s0\<lparr>stateObjectsDirty := insert a (stateObjectsDirty s0)\<rparr>))"
      by (auto simp: createObject_eq Let_def)
    have h: "holds a ob s1" using ok present(3) s1 ob by (auto simp: holds_def obj_ok_def intro!: sdb_inv_setStateObject)
    have w: "world_of db s1 = (world_of db s)\<lparr>w_acct := (w_acct (world_of db s))(a \<mapsto> zero_view db)\<rparr>"
      using s1 ok v ob present(4) by (simp add: world_of_setStateObject obj_ok_def)
    have "so_address p = a" using present(3) by (simp add: holds_def obj_ok_def)
    then have "sdbj.undoable db s s1"
      by (intro sdbj.undoableI [where es = "[resetObjectChange p]"])
         (use h s1 present w in \<open>simp_all add: holds_def fun_upd_idem\<close>)
    with h w s1(1) present(2) show ?thesis by simp
  qed
  then show "holds a ob s1"
    "world_of db s1 = (world_of db s)\<lparr>w_acct := (w_acct (world_of db s))(a \<mapsto> zero_view db)\<rparr>"
    "map_option (obj_view db) prev = w_acct (world_of db s) a" "sdbj.undoable db s s1" by simp_all
qed

lemma undoable_refl: "sdb_inv s \<Longrightarrow> sdbj.undoable db s s"
  by (rule sdbj.undoableI [where es = "[]"]) simp_all

lemma GetOrNew_spec:
  assumes "db_ok db" and "sdb_inv s" and "GetOrNewStateObject db a s = (ob, s1)"
  shows "holds a ob s1" "world_of db s1 = wEnsure db a (world_of db s)" "sdbj.undoable db s s1"
proof -
  have "holds a ob s1 \<and> world_of db s1 = wEnsure db a (world_of db s) \<and> sdbj.undoable db s s1"
    using assms(2)
  proof (cases rule: getStateObject_cases [where a = a and db = db])
    case (absent s0)
    then obtain prev where c: "createObject db a s0 = (ob, prev, s1)"
      using assms(3) by (auto simp: GetOrNewStateObject_def split: prod.splits)
    note cs = createObject_spec [OF assms(1) absent(5) c]
    have "sdbj.undoable db s s0"
      by (rule sdbj.undoableI [where es = "[]"]) (use absent in simp_all)
    from sdbj.undoable_trans [OF this cs(5)] cs absent show ?thesis by (simp add: wEnsure_def)
  next
    case (present ob' s0)
    then have e: "ob = ob'" "s1 = s0"
      using assms(3) by (auto simp: GetOrNewStateObject_def holds_def)
    have "sdbj.undoable db s s0"
      by (rule sdbj.undoableI [where es = "[]"]) (use present in \<open>simp_all add: holds_def\<close>)
    moreover have "wEnsure db a (world_of db s) = world_of db s"
      using present(2) by (simp add: wEnsure_def fun_upd_idem)
    ultimately show ?thesis using e present by simp
  qed
  then show "holds a ob s1" "world_of db s1 = wEnsure db a (world_of db s)" "sdbj.undoable db s s1" by simp_all
qed

lemma holds_append_journal: "holds a ob s \<Longrightarrow> entry_ok e \<Longrightarrow> holds a ob (append_journal e s)"
  by (simp add: holds_def)

text \<open>A journaled setter: the entry keeps the value that the setter replaces.\<close>

lemma journaled_setter:
  assumes h: "holds a ob s" and e: "entry_ok e"
    and view: "world_of db s' = wUpd a g (world_of db (append_journal e s))"
    and meta: "sdb_inv s'" "journal s' = journal s @ [e]" "validRevisions s' = validRevisions s"
      "nextRevisionId s' = nextRevisionId s"
    and restore: "wundo db e (wUpd a g (world_of db s)) = wWith a g' (wUpd a g (world_of db s))"
      "g' (g (obj_view db ob)) = obj_view db ob"
  shows "sdbj.undoable db s s'"
proof (rule sdbj.undoableI [where es = "[e]"])
  show "effs (wundo db) (rev [e]) (world_of db s') = Some (world_of db s)"
    using view restore holds_view [OF h, of db] by (simp add: wWith_def wUpd_def fun_upd_idem)
qed (use meta in simp_all)

lemma so_SetBalance_spec:
  assumes "holds a ob s"
  shows "world_of db (store_obj (so_SetBalance n (ob, s))) = wUpd a (\<lambda>v. v\<lparr>v_balance := n\<rparr>) (world_of db s)"
    and "sdbj.undoable db s (store_obj (so_SetBalance n (ob, s)))"
proof -
  let ?e = "balanceChange a (Balance (so_data ob))"
  have h: "holds a ob (append_journal ?e s)" using assms by (simp add: holds_append_journal)
  have a: "so_address ob = a" using assms by (simp add: holds_def obj_ok_def)
  show "world_of db (store_obj (so_SetBalance n (ob, s))) = wUpd a (\<lambda>v. v\<lparr>v_balance := n\<rparr>) (world_of db s)"
    using setters_view(1) [OF h, of db n] by (simp add: so_SetBalance_def a)
  show "sdbj.undoable db s (store_obj (so_SetBalance n (ob, s)))"
    unfolding so_SetBalance_def prod.case a
    by (rule journaled_setter [OF assms _ setters_view(1) [OF h],
        where g' = "\<lambda>v. v\<lparr>v_balance := Balance (so_data ob)\<rparr>"])
       (use setters_meta(1-4) [OF h, of n] in \<open>simp_all add: obj_view_eq\<close>)
qed

lemma so_SetNonce_spec:
  assumes "holds a ob s"
  shows "world_of db (store_obj (so_SetNonce n (ob, s))) = wUpd a (\<lambda>v. v\<lparr>v_nonce := n\<rparr>) (world_of db s)"
    and "sdbj.undoable db s (store_obj (so_SetNonce n (ob, s)))"
proof -
  let ?e = "nonceChange a (Nonce (so_data ob))"
  have h: "holds a ob (append_journal ?e s)" using assms by (simp add: holds_append_journal)
  have a: "so_address ob = a" using assms by (simp add: holds_def obj_ok_def)
  show "world_of db (store_obj (so_SetNonce n (ob, s))) = wUpd a (\<lambda>v. v\<lparr>v_nonce := n\<rparr>) (world_of db s)"
    using setters_view(2) [OF h, of db n] by (simp add: so_SetNonce_def a)
  show "sdbj.undoable db s (store_obj (so_SetNonce n (ob, s)))"
    unfolding so_SetNonce_def prod.case a
    by (rule journaled_setter [OF assms _ setters_view(2) [OF h],
        where g' = "\<lambda>v. v\<lparr>v_nonce := Nonce (so_data ob)\<rparr>"])
       (use setters_meta(5-8) [OF h, of n] in \<open>simp_all add: obj_view_eq\<close>)
qed

text \<open>A getter of the object before the setter: the object is replaced by one with the same view.\<close>

lemma holds_same_obj:
  assumes "holds a ob s" and "same_obj db ob ob'"
  shows "holds a ob' (setStateObject ob' s)" "world_of db (setStateObject ob' s) = world_of db s"
proof -
  have a: "so_address ob' = a" "obj_ok a ob'" "\<not> deleted ob'" "obj_view db ob' = obj_view db ob"
    using assms by (auto simp: holds_def obj_ok_def same_obj_def)
  then show "holds a ob' (setStateObject ob' s)"
    using assms(1) by (auto simp: holds_def intro!: sdb_inv_setStateObject)
  show "world_of db (setStateObject ob' s) = world_of db s"
    unfolding world_of_setStateObject using a holds_view [OF assms(1), of db] by (simp add: fun_upd_idem)
qed

lemma undoable_same:
  assumes "holds a ob s" and "same_obj db ob ob'"
  shows "sdbj.undoable db s (setStateObject ob' s)"
  by (rule sdbj.undoableI [where es = "[]"])
     (use holds_same_obj [OF assms] in \<open>simp_all add: holds_def\<close>)

lemma store_after_set: "so_address ob' = so_address ob \<Longrightarrow>
   store_obj (fire_onDirty (ob', append_journal e (setStateObject ob s))) = store_obj (fire_onDirty (ob', append_journal e s))"
  by (simp add: store_obj_def fire_onDirty_eq setStateObject_def append_journal_def)

lemma so_SetStateByteArray_spec:
  assumes "holds a ob s"
  shows "world_of db (store_obj (so_SetStateByteArray db k b (ob, s))) =
           wUpd a (\<lambda>v. v\<lparr>v_bytes := (v_bytes v)(k := b)\<rparr>) (world_of db s)"
    and "sdbj.undoable db s (store_obj (so_SetStateByteArray db k b (ob, s)))"
proof -
  obtain prev ob1 where g: "so_GetStateByteArray db k ob = (prev, ob1)" by fastforce
  have so: "same_obj db ob ob1" using same_obj_GetStateByteArray [of db ob k] g by simp
  have prev: "prev = v_bytes (obj_view db ob) k" using g by (simp add: obj_view_def)
  let ?s = "setStateObject ob1 s" and ?e = "storageByteArrayChange a k prev"
  have h1: "holds a ob1 ?s" using holds_same_obj [OF assms so] by simp
  have h: "holds a ob1 (append_journal ?e ?s)" using h1 by (simp add: holds_append_journal)
  have a: "so_address ob = a" "so_address ob1 = a" using assms h1 by (simp_all add: holds_def obj_ok_def)
  have st: "store_obj (so_SetStateByteArray db k b (ob, s)) = store_obj (so_setStateByteArray k b (ob1, append_journal ?e ?s))"
    by (simp add: so_SetStateByteArray_def g a so_setStateByteArray_def store_after_set)
  show "world_of db (store_obj (so_SetStateByteArray db k b (ob, s))) =
           wUpd a (\<lambda>v. v\<lparr>v_bytes := (v_bytes v)(k := b)\<rparr>) (world_of db s)"
    unfolding st using setters_view(5) [OF h, of db k b] holds_same_obj(2) [OF assms so] by simp
  have v1: "obj_view db ob1 = obj_view db ob" using so by (simp add: same_obj_def)
  have "sdbj.undoable db ?s (store_obj (so_setStateByteArray k b (ob1, append_journal ?e ?s)))"
    by (rule journaled_setter [OF h1 _ setters_view(5) [OF h],
        where g' = "\<lambda>v. v\<lparr>v_bytes := (v_bytes v)(k := prev)\<rparr>"])
       (use setters_meta(17-20) [OF h, of k b] prev v1 in simp_all)
  with undoable_same [OF assms so] show "sdbj.undoable db s (store_obj (so_SetStateByteArray db k b (ob, s)))"
    unfolding st by (rule sdbj.undoable_trans)
qed

lemma so_SetState_spec:
  assumes "holds a ob s" and "so_SetState db k x (ob, s) = Inr os"
  shows "world_of db (store_obj os) = wUpd a (\<lambda>v. v\<lparr>v_storage := (v_storage v)(k := Inr x)\<rparr>) (world_of db s)"
    and "sdbj.undoable db s (store_obj os)"
proof -
  obtain prev ob1 where g: "so_GetState db k ob = (Inr prev, ob1)"
      and os: "os = so_setState k x (ob1, append_journal (storageChange (so_address ob) k prev) s)"
    using assms(2) by (auto simp: so_SetState_def split: prod.splits sum.splits)
  have so: "same_obj db ob ob1" using same_obj_GetState [of db ob k] g by simp
  have prev: "Inr prev = v_storage (obj_view db ob) k" using g by (simp add: obj_view_def)
  let ?s = "setStateObject ob1 s" and ?e = "storageChange a k prev"
  have h1: "holds a ob1 ?s" using holds_same_obj [OF assms(1) so] by simp
  have h: "holds a ob1 (append_journal ?e ?s)" using h1 by (simp add: holds_append_journal)
  have a: "so_address ob = a" "so_address ob1 = a" using assms h1 by (simp_all add: holds_def obj_ok_def)
  have st: "store_obj os = store_obj (so_setState k x (ob1, append_journal ?e ?s))"
    by (simp add: os a so_setState_def store_after_set)
  show "world_of db (store_obj os) = wUpd a (\<lambda>v. v\<lparr>v_storage := (v_storage v)(k := Inr x)\<rparr>) (world_of db s)"
    unfolding st using setters_view(4) [OF h, of db k x] holds_same_obj(2) [OF assms(1) so] by simp
  have v1: "obj_view db ob1 = obj_view db ob" using so by (simp add: same_obj_def)
  have "sdbj.undoable db ?s (store_obj (so_setState k x (ob1, append_journal ?e ?s)))"
    by (rule journaled_setter [OF h1 _ setters_view(4) [OF h],
        where g' = "\<lambda>v. v\<lparr>v_storage := (v_storage v)(k := Inr prev)\<rparr>"])
       (use setters_meta(13-16) [OF h, of k x] prev v1 in \<open>simp_all add: fun_upd_idem\<close>)
  with undoable_same [OF assms(1) so] show "sdbj.undoable db s (store_obj os)"
    unfolding st by (rule sdbj.undoable_trans)
qed

lemma so_SetCode_spec:
  assumes "holds a ob s"
  shows "world_of db (store_obj (so_SetCode db h c (ob, s))) =
           wUpd a (\<lambda>v. v\<lparr>v_codehash := h, v_code := code_of db a (hash_bytes h) c\<rparr>) (world_of db s)"
    and "sdbj.undoable db s (store_obj (so_SetCode db h c (ob, s)))"
proof -
  obtain prev ob1 where g: "so_Code db ob = (prev, ob1)" by fastforce
  have so: "same_obj db ob ob1" using same_obj_Code [of db ob] g by simp
  let ?s = "setStateObject ob1 s" and ?e = "codeChange a prev (CodeHash (so_data ob))"
  have h1: "holds a ob1 ?s" using holds_same_obj [OF assms so] by simp
  have hh: "holds a ob1 (append_journal ?e ?s)" using h1 by (simp add: holds_append_journal)
  have a: "so_address ob = a" "so_address ob1 = a" using assms h1 by (simp_all add: holds_def obj_ok_def)
  have st: "store_obj (so_SetCode db h c (ob, s)) = store_obj (so_setCode h c (ob1, append_journal ?e ?s))"
    by (simp add: so_SetCode_def g a so_setCode_def store_after_set)
  show "world_of db (store_obj (so_SetCode db h c (ob, s))) =
           wUpd a (\<lambda>v. v\<lparr>v_codehash := h, v_code := code_of db a (hash_bytes h) c\<rparr>) (world_of db s)"
    unfolding st using setters_view(3) [OF hh, of db h c] holds_same_obj(2) [OF assms so] by simp
  have ch: "hash_bytes (BytesToHash (CodeHash (so_data ob))) = CodeHash (so_data ob)"
    using assms by (simp add: holds_def obj_ok_def hash_bytes_BytesToHash)
  have pc: "code_of db a (CodeHash (so_data ob)) prev = v_code (obj_view db ob)"
    using g fst_so_Code [of db ob] a by (auto simp: obj_view_def code_of_def split: option.splits sum.splits)
  have v1: "obj_view db ob1 = obj_view db ob" using so by (simp add: same_obj_def)
  have "sdbj.undoable db ?s (store_obj (so_setCode h c (ob1, append_journal ?e ?s)))"
    by (rule journaled_setter [OF h1 _ setters_view(3) [OF hh],
        where g' = "\<lambda>v. v\<lparr>v_codehash := BytesToHash (CodeHash (so_data ob)), v_code := code_of db a (hash_bytes (BytesToHash (CodeHash (so_data ob)))) prev\<rparr>"])
       (use setters_meta(9-12) [OF hh, of h c] ch pc v1 in \<open>simp_all add: obj_view_def\<close>)
  with undoable_same [OF assms so] show "sdbj.undoable db s (store_obj (so_SetCode db h c (ob, s)))"
    unfolding st by (rule sdbj.undoable_trans)
qed

subsection \<open>The operations on the world\<close>

definition wSetBalance :: "database \<Rightarrow> address \<Rightarrow> int \<Rightarrow> world \<Rightarrow> world" where
  "wSetBalance db a n w = wUpd a (\<lambda>v. v\<lparr>v_balance := n\<rparr>) (wEnsure db a w)"

definition wAddBalance :: "database \<Rightarrow> address \<Rightarrow> int \<Rightarrow> world \<Rightarrow> world" where
  "wAddBalance db a n w =
     (if n > 0 then wUpd a (\<lambda>v. v\<lparr>v_balance := v_balance v + n\<rparr>) (wEnsure db a w) else wEnsure db a w)"

definition wSubBalance :: "database \<Rightarrow> address \<Rightarrow> int \<Rightarrow> world \<Rightarrow> world" where
  "wSubBalance db a n w =
     (if n > 0 then wUpd a (\<lambda>v. v\<lparr>v_balance := v_balance v - n\<rparr>) (wEnsure db a w) else wEnsure db a w)"

definition wSetNonce :: "database \<Rightarrow> address \<Rightarrow> uint64 \<Rightarrow> world \<Rightarrow> world" where
  "wSetNonce db a n w = wUpd a (\<lambda>v. v\<lparr>v_nonce := n\<rparr>) (wEnsure db a w)"

definition wSetCode :: "database \<Rightarrow> address \<Rightarrow> bytes \<Rightarrow> world \<Rightarrow> world" where
  "wSetCode db a c w =
     wUpd a (\<lambda>v. v\<lparr>v_codehash := Keccak256 db c, v_code := Some c\<rparr>) (wEnsure db a w)"

definition wSetState :: "database \<Rightarrow> address \<Rightarrow> hash \<Rightarrow> hash \<Rightarrow> world \<Rightarrow> world" where
  "wSetState db a k x w = wUpd a (\<lambda>v. v\<lparr>v_storage := (v_storage v)(k := Inr x)\<rparr>) (wEnsure db a w)"

definition wSetStateByteArray :: "database \<Rightarrow> address \<Rightarrow> hash \<Rightarrow> bytes \<Rightarrow> world \<Rightarrow> world" where
  "wSetStateByteArray db a k b w = wUpd a (\<lambda>v. v\<lparr>v_bytes := (v_bytes v)(k := b)\<rparr>) (wEnsure db a w)"

definition wSuicide :: "address \<Rightarrow> world \<Rightarrow> world" where
  "wSuicide a w = wUpd a (\<lambda>v. v\<lparr>v_suicided := True, v_balance := 0\<rparr>) w"

definition wCreateAccount :: "database \<Rightarrow> address \<Rightarrow> world \<Rightarrow> world" where
  "wCreateAccount db a w =
     w\<lparr>w_acct := (w_acct w)(a \<mapsto> (zero_view db)
        \<lparr>v_balance := (case w_acct w a of None \<Rightarrow> 0 | Some v \<Rightarrow> v_balance v)\<rparr>)\<rparr>"

definition wGetBalance :: "address \<Rightarrow> world \<Rightarrow> int" where
  "wGetBalance a w = (case w_acct w a of None \<Rightarrow> 0 | Some v \<Rightarrow> v_balance v)"

definition wGetStateByteArray :: "address \<Rightarrow> hash \<Rightarrow> world \<Rightarrow> bytes" where
  "wGetStateByteArray a k w = (case w_acct w a of None \<Rightarrow> [] | Some v \<Rightarrow> v_bytes v k)"

text \<open>An operation that starts with \<^verbatim>\<open>GetOrNewStateObject\<close>.\<close>

lemma via_GetOrNew:
  assumes "db_ok db" and "sdb_inv s"
    and "\<And>ob s1. holds a ob s1 \<Longrightarrow> world_of db (f (ob, s1)) = eff (world_of db s1) \<and> sdbj.undoable db s1 (f (ob, s1))"
  shows "world_of db (f (GetOrNewStateObject db a s)) = eff (wEnsure db a (world_of db s))"
    and "sdbj.undoable db s (f (GetOrNewStateObject db a s))"
proof -
  obtain ob s1 where g: "GetOrNewStateObject db a s = (ob, s1)" by fastforce
  note gs = GetOrNew_spec [OF assms(1,2) g]
  show "world_of db (f (GetOrNewStateObject db a s)) = eff (wEnsure db a (world_of db s))"
    using assms(3) [OF gs(1)] gs(2) g by simp
  show "sdbj.undoable db s (f (GetOrNewStateObject db a s))"
    using sdbj.undoable_trans [OF gs(3)] assms(3) [OF gs(1)] g by simp
qed

lemma wUpd_cong: "w_acct w a = Some v \<Longrightarrow> g v = g' v \<Longrightarrow> wUpd a g w = wUpd a g' w"
  by (simp add: wUpd_def)

lemma store_obj_id: "holds a ob s \<Longrightarrow> store_obj (ob, s) = s"
  by (simp add: store_obj_def setStateObject_def holds_def obj_ok_def fun_upd_idem)

lemma touch_spec:
  assumes "holds a ob s"
  shows "world_of db (store_obj (touch (ob, s))) = world_of db s" "sdbj.undoable db s (store_obj (touch (ob, s)))"
proof -
  let ?e = "touchChange a (touched ob) (\<not> onDirty ob)"
  have h: "holds a ob (append_journal ?e s)" using assms by (simp add: holds_append_journal)
  have a: "so_address ob = a" using assms by (simp add: holds_def obj_ok_def)
  have c: "ob\<lparr>onDirty := False, touched := True\<rparr> = ob\<lparr>touched := True, onDirty := False\<rparr>" by (cases ob) simp
  have t: "store_obj (touch (ob, s)) = store_obj (fire_onDirty (ob\<lparr>touched := True\<rparr>, append_journal ?e s))"
    by (simp add: touch_def a c Let_def fire_onDirty_eq store_obj_def)
  have ok: "obj_ok a (ob\<lparr>touched := True\<rparr>)" "\<not> deleted (ob\<lparr>touched := True\<rparr>)"
    using assms by (simp_all add: holds_def obj_ok_def)
  have v: "obj_view db (ob\<lparr>touched := True\<rparr>) = id (obj_view db ob)" by (simp add: obj_view_eq)
  note fire = wUpd_fire [where g = id, OF h ok v]
  have w: "wUpd a id (world_of db s) = world_of db s"
    using holds_view [OF assms, of db] by (simp add: wUpd_def fun_upd_idem)
  then show "world_of db (store_obj (touch (ob, s))) = world_of db s"
    unfolding t using fire(1) by simp
  show "sdbj.undoable db s (store_obj (touch (ob, s)))"
    unfolding t using fire w holds_view [OF assms, of db]
    by (intro sdbj.undoableI [where es = "[?e]"]) (simp_all add: wWith_def)
qed

lemma balance_ops:
  assumes "db_ok db" and "sdb_inv s"
  shows "world_of db (SetBalance db a n s) = wSetBalance db a n (world_of db s)"
    and "sdbj.undoable db s (SetBalance db a n s)"
    and "world_of db (AddBalance db a n s) = wAddBalance db a n (world_of db s)"
    and "sdbj.undoable db s (AddBalance db a n s)"
    and "world_of db (SubBalance db a n s) = wSubBalance db a n (world_of db s)"
    and "sdbj.undoable db s (SubBalance db a n s)"
proof -
  show "world_of db (SetBalance db a n s) = wSetBalance db a n (world_of db s)"
      "sdbj.undoable db s (SetBalance db a n s)"
    unfolding SetBalance_def wSetBalance_def
    by (rule via_GetOrNew [OF assms], simp add: so_SetBalance_spec)+
  have add: "world_of db (store_obj (so_AddBalance db n (ob, s1))) =
        (if n > 0 then wUpd a (\<lambda>v. v\<lparr>v_balance := v_balance v + n\<rparr>) (world_of db s1) else world_of db s1) \<and>
      sdbj.undoable db s1 (store_obj (so_AddBalance db n (ob, s1)))" if h: "holds a ob s1" for ob s1
  proof -
    have "wUpd a (\<lambda>v. v\<lparr>v_balance := Balance (so_data ob) + n\<rparr>) (world_of db s1) =
        wUpd a (\<lambda>v. v\<lparr>v_balance := v_balance v + n\<rparr>) (world_of db s1)"
      by (rule wUpd_cong [OF holds_view [OF h]]) (simp add: obj_view_def)
    with h show ?thesis
      by (simp add: so_AddBalance_def so_SetBalance_spec touch_spec store_obj_id undoable_refl [of s1]
          holds_def [of a ob s1, THEN iffD1])
  qed
  show "world_of db (AddBalance db a n s) = wAddBalance db a n (world_of db s)"
      "sdbj.undoable db s (AddBalance db a n s)"
    unfolding AddBalance_def wAddBalance_def by (rule via_GetOrNew [OF assms add], assumption)+
  have sub: "world_of db (store_obj (so_SubBalance n (ob, s1))) =
        (if n > 0 then wUpd a (\<lambda>v. v\<lparr>v_balance := v_balance v - n\<rparr>) (world_of db s1) else world_of db s1) \<and>
      sdbj.undoable db s1 (store_obj (so_SubBalance n (ob, s1)))" if h: "holds a ob s1" for ob s1
  proof -
    have "wUpd a (\<lambda>v. v\<lparr>v_balance := Balance (so_data ob) - n\<rparr>) (world_of db s1) =
        wUpd a (\<lambda>v. v\<lparr>v_balance := v_balance v - n\<rparr>) (world_of db s1)"
      by (rule wUpd_cong [OF holds_view [OF h]]) (simp add: obj_view_def)
    with h show ?thesis
      by (simp add: so_SubBalance_def so_SetBalance_spec store_obj_id undoable_refl [of s1]
          holds_def [of a ob s1, THEN iffD1])
  qed
  show "world_of db (SubBalance db a n s) = wSubBalance db a n (world_of db s)"
      "sdbj.undoable db s (SubBalance db a n s)"
    unfolding SubBalance_def wSubBalance_def by (rule via_GetOrNew [OF assms sub], assumption)+
qed

lemma code_of_Some [simp]: "code_of db a h (Some c) = Some c"
  by (simp add: code_of_def)

lemma setter_ops:
  assumes "db_ok db" and "sdb_inv s"
  shows "world_of db (SetNonce db a k s) = wSetNonce db a k (world_of db s)"
    and "sdbj.undoable db s (SetNonce db a k s)"
    and "world_of db (SetCode db a c s) = wSetCode db a c (world_of db s)"
    and "sdbj.undoable db s (SetCode db a c s)"
    and "world_of db (SetStateByteArray db a key b s) = wSetStateByteArray db a key b (world_of db s)"
    and "sdbj.undoable db s (SetStateByteArray db a key b s)"
proof -
  show "world_of db (SetNonce db a k s) = wSetNonce db a k (world_of db s)"
      "sdbj.undoable db s (SetNonce db a k s)"
    unfolding SetNonce_def wSetNonce_def by (rule via_GetOrNew [OF assms], simp add: so_SetNonce_spec)+
  show "world_of db (SetCode db a c s) = wSetCode db a c (world_of db s)"
      "sdbj.undoable db s (SetCode db a c s)"
    unfolding SetCode_def wSetCode_def
    by (rule via_GetOrNew [OF assms, where eff = "wUpd a (\<lambda>v. v\<lparr>v_codehash := Keccak256 db c, v_code := Some c\<rparr>)"],
        simp add: so_SetCode_spec)+
  show "world_of db (SetStateByteArray db a key b s) = wSetStateByteArray db a key b (world_of db s)"
      "sdbj.undoable db s (SetStateByteArray db a key b s)"
    unfolding SetStateByteArray_def wSetStateByteArray_def
    by (rule via_GetOrNew [OF assms, where eff = "wUpd a (\<lambda>v. v\<lparr>v_bytes := (v_bytes v)(key := b)\<rparr>)"],
        rule conjI [OF so_SetStateByteArray_spec]; assumption)+
qed

lemma SetState_op:
  assumes "db_ok db" and "sdb_inv s" and "SetState db a k x s = Inr s'"
  shows "world_of db s' = wSetState db a k x (world_of db s)" "sdbj.undoable db s s'"
proof -
  obtain ob s1 where g: "GetOrNewStateObject db a s = (ob, s1)" by fastforce
  then obtain os where os: "so_SetState db k x (ob, s1) = Inr os" "s' = store_obj os"
    using assms(3) by (auto simp: SetState_def res_bind_Inr_iff)
  note gs = GetOrNew_spec [OF assms(1,2) g]
  note st = so_SetState_spec [OF gs(1) os(1)]
  show "world_of db s' = wSetState db a k x (world_of db s)"
    using st(1) gs(2) os(2) by (simp add: wSetState_def)
  show "sdbj.undoable db s s'" using sdbj.undoable_trans [OF gs(3) st(2)] os(2) by simp
qed

lemma Suicide_op:
  assumes "sdb_inv s"
  shows "world_of db (snd (Suicide a s)) = wSuicide a (world_of db s)"
    and "sdbj.undoable db s (snd (Suicide a s))"
proof -
  have "world_of db (snd (Suicide a s)) = wSuicide a (world_of db s) \<and> sdbj.undoable db s (snd (Suicide a s))"
    using assms
  proof (cases rule: getStateObject_cases [where a = a and db = db])
    case (absent s1)
    have "sdbj.undoable db s s1"
      by (rule sdbj.undoableI [where es = "[]"]) (use absent in simp_all)
    with absent show ?thesis by (simp add: Suicide_def wSuicide_def wUpd_def fun_upd_idem)
  next
    case (present ob s1)
    let ?e = "suicideChange a (suicided ob) (Balance (so_data ob))"
    let ?ob = "ob\<lparr>suicided := True, so_data := (so_data ob)\<lparr>Balance := 0\<rparr>\<rparr>"
    have h: "holds a ob (append_journal ?e s1)" using present(3) by (simp add: holds_append_journal)
    have ok: "obj_ok a ?ob" "\<not> deleted ?ob" using h by (simp_all add: holds_def obj_ok_def)
    have c: "ob\<lparr>suicided := True, onDirty := False, so_data := d\<rparr> =
        ob\<lparr>suicided := True, so_data := d, onDirty := False\<rparr>" for d by (cases ob) simp
    have st: "snd (Suicide a s) = store_obj (fire_onDirty (?ob, append_journal ?e s1))"
      using present(1) by (simp add: Suicide_def markSuicided_def fire_onDirty_eq store_obj_def Let_def c)
    have v: "obj_view db ?ob = (\<lambda>v. v\<lparr>v_suicided := True, v_balance := 0\<rparr>) (obj_view db ob)"
      by (simp add: obj_view_eq)
    note fire = wUpd_fire [where g = "\<lambda>v. v\<lparr>v_suicided := True, v_balance := 0\<rparr>", OF h ok v]
    have "sdbj.undoable db s (snd (Suicide a s))"
      unfolding st
      by (rule sdbj.undoableI [where es = "[?e]"])
         (use fire present in \<open>simp_all add: wUpd_def obj_view_def fun_upd_idem\<close>)
    with fire(1) present(4) show ?thesis by (simp add: st wSuicide_def)
  qed
  then show "world_of db (snd (Suicide a s)) = wSuicide a (world_of db s)"
    "sdbj.undoable db s (snd (Suicide a s))" by simp_all
qed

lemma CreateAccount_op:
  assumes "db_ok db" and "sdb_inv s"
  shows "world_of db (CreateAccount db a s) = wCreateAccount db a (world_of db s)"
    and "sdbj.undoable db s (CreateAccount db a s)"
proof -
  obtain ob prev s1 where c: "createObject db a s = (ob, prev, s1)" by (metis prod_cases3)
  note cs = createObject_spec [OF assms c]
  have "world_of db (CreateAccount db a s) = wCreateAccount db a (world_of db s) \<and>
      sdbj.undoable db s (CreateAccount db a s)"
  proof (cases prev)
    case None
    with cs show ?thesis by (simp add: CreateAccount_def c wCreateAccount_def zero_view_def)
  next
    case (Some p)
    then have w: "w_acct (world_of db s) a = Some (obj_view db p)" using cs(4) by simp
    note sv = setters_view(1) [OF cs(1), of db "Balance (so_data p)"]
      and sm = setters_meta(1-4) [OF cs(1), of "Balance (so_data p)"]
    obtain es where es: "journal s1 = journal s @ es" "effs (wundo db) (rev es) (world_of db s1) = Some (world_of db s)"
      using cs(5) by (auto simp: sdbj.undoable_def)
    have e: "es = [resetObjectChange p]"
      using es(1) Some c assms(2)
      by (cases rule: getStateObject_cases [where a = a and db = db, OF assms(2)])
         (auto simp: createObject_eq Let_def split: prod.splits)
    have pa: "so_address p = a"
      using Some c by (cases rule: getStateObject_cases [where a = a and db = db, OF assms(2)])
         (auto simp: createObject_eq Let_def holds_def obj_ok_def split: prod.splits)
    have "sdbj.undoable db s (CreateAccount db a s)"
      by (rule sdbj.undoableI [where es = es])
         (use Some c sm sv es cs(3,5) w pa e in
           \<open>simp_all add: CreateAccount_def wUpd_def sdbj.undoable_def fun_upd_idem\<close>)
    with Some c sv cs(3) w show ?thesis
      by (simp add: CreateAccount_def wCreateAccount_def wUpd_def obj_view_def)
  qed
  then show "world_of db (CreateAccount db a s) = wCreateAccount db a (world_of db s)"
    "sdbj.undoable db s (CreateAccount db a s)" by simp_all
qed

lemma misc_ops:
  assumes "sdb_inv s"
  shows "sdbj.undoable db s (AddLog l s)" and "sdbj.undoable db s (AddPreimage h p s)"
    and "sdbj.undoable db s (AddRefund g s)"
proof -
  have inv: "sdb_inv (append_journal e t)" "list_all entry_ok (journal t)" if "sdb_inv t" "entry_ok e" for e t
    using that by (simp_all add: sdb_inv_def)
  show "sdbj.undoable db s (AddLog l s)"
    using assms
    by (intro sdbj.undoableI [where es = "[addLogChange (thash s)]"])
       (auto simp: AddLog_def Let_def sdb_inv_def world_of_def acct_view_def log_list_def append_journal_def
         fun_eq_iff split: option.split)
  show "sdbj.undoable db s (AddPreimage h p s)"
  proof (cases "preimages s h")
    case None
    with assms show ?thesis
      by (intro sdbj.undoableI [where es = "[addPreimageChange h]"])
         (auto simp: AddPreimage_def sdb_inv_def world_of_def acct_view_def append_journal_def log_list_def
           fun_eq_iff split: option.split)
  next
    case Some
    with undoable_refl [OF assms] show ?thesis by (simp add: AddPreimage_def)
  qed
  show "sdbj.undoable db s (AddRefund g s)"
    using assms
    by (intro sdbj.undoableI [where es = "[refundChange (refund s)]"])
       (auto simp: AddRefund_def sdb_inv_def world_of_def acct_view_def append_journal_def log_list_def
         fun_eq_iff split: option.split)
qed

text \<open>Getters fill caches only.\<close>

lemma getStateObject_undoable: "sdb_inv s \<Longrightarrow> sdbj.undoable db s (snd (getStateObject a s))"
  by (erule getStateObject_cases [where a = a and db = db])
     (auto simp: holds_def intro!: sdbj.undoableI [where es = "[]"])

lemma getter_undoable:
  assumes "sdb_inv s" and "\<And>ob. same_obj db ob (g ob)"
  shows "sdbj.undoable db s (case getStateObject a s of (None, s1) \<Rightarrow> s1 | (Some ob, s1) \<Rightarrow> setStateObject (g ob) s1)"
  using assms(1)
proof (cases rule: getStateObject_cases [where a = a and db = db])
  case (absent s1)
  with getStateObject_undoable [OF assms(1), of db a] show ?thesis by simp
next
  case (present ob s1)
  from getStateObject_undoable [OF assms(1), of db a] have "sdbj.undoable db s s1" by (simp add: present(1))
  from sdbj.undoable_trans [OF this undoable_same [OF present(3) assms(2)]] show ?thesis by (simp add: present(1))
qed

lemma getter_ops:
  assumes "sdb_inv s"
  shows "sdbj.undoable db s (snd (GetCode db a s))" and "sdbj.undoable db s (snd (GetState db a k s))"
    and "sdbj.undoable db s (snd (GetStateByteArray db a k s))"
    and "sdbj.undoable db s (snd (GetCodeSize db a s))"
proof -
  have "snd (GetCode db a s) = (case getStateObject a s of (None, s1) \<Rightarrow> s1
      | (Some ob, s1) \<Rightarrow> setStateObject (snd (so_Code db ob)) s1)"
    by (simp add: GetCode_def split: prod.split option.split)
  then show "sdbj.undoable db s (snd (GetCode db a s))"
    using getter_undoable [OF assms same_obj_Code, of db a] by simp
  have "snd (GetState db a k s) = (case getStateObject a s of (None, s1) \<Rightarrow> s1
      | (Some ob, s1) \<Rightarrow> setStateObject (snd (so_GetState db k ob)) s1)"
    by (simp add: GetState_def split: prod.split option.split)
  then show "sdbj.undoable db s (snd (GetState db a k s))"
    using getter_undoable [OF assms, of db "\<lambda>ob. snd (so_GetState db k ob)" a, OF same_obj_GetState] by simp
  have "snd (GetStateByteArray db a k s) = (case getStateObject a s of (None, s1) \<Rightarrow> s1
      | (Some ob, s1) \<Rightarrow> setStateObject (snd (so_GetStateByteArray db k ob)) s1)"
    by (simp add: GetStateByteArray_def split: prod.split option.split)
  then show "sdbj.undoable db s (snd (GetStateByteArray db a k s))"
    using getter_undoable [OF assms, of db "\<lambda>ob. snd (so_GetStateByteArray db k ob)" a, OF same_obj_GetStateByteArray] by simp
  obtain so s1 where g: "getStateObject a s = (so, s1)" by fastforce
  have u: "sdbj.undoable db s s1" using getStateObject_undoable [OF assms, of db a] by (simp add: g)
  have i: "sdb_inv s1" using u by (simp add: sdbj.undoable_def)
  have "sdbj.undoable db s1 (sdb_setError e s1)" for e
    by (rule sdbj.undoableI [where es = "[]"]) (use i in simp_all)
  from sdbj.undoable_trans [OF u this] u show "sdbj.undoable db s (snd (GetCodeSize db a s))"
    by (simp add: GetCodeSize_def g split: option.split sum.split)
qed

text \<open>Reading through the interface.\<close>

lemma GetBalance_view: "sdb_inv s \<Longrightarrow> fst (GetBalance a s) = wGetBalance a (world_of db s)"
  by (erule getStateObject_cases [where a = a and db = db])
     (simp_all add: GetBalance_def wGetBalance_def obj_view_def)

lemma GetStateByteArray_view:
  "sdb_inv s \<Longrightarrow> fst (GetStateByteArray db a k s) = wGetStateByteArray a k (world_of db s)"
  by (erule getStateObject_cases [where a = a and db = db])
     (auto simp: GetStateByteArray_def wGetStateByteArray_def obj_view_def split: prod.split)

subsection \<open>Sequences of operations\<close>

datatype state_op =
    OCreateAccount address | OAddBalance address int | OSubBalance address int | OSetBalance address int
  | OSetNonce address uint64 | OSetCode address bytes | OSetState address hash hash
  | OSetStateByteArray address hash bytes | OSuicide address | OAddLog Log | OAddPreimage hash bytes
  | OAddRefund int | OGetAccount address | OGetCode address | OGetCodeSize address | OGetState address hash
  | OGetStateByteArray address hash | OSnapshot | ORevertToSnapshot int

fun exec_op :: "database \<Rightarrow> state_op \<Rightarrow> stateDB \<Rightarrow> stateDB result" where
  "exec_op db (OCreateAccount a) s = Inr (CreateAccount db a s)"
| "exec_op db (OAddBalance a n) s = Inr (AddBalance db a n s)"
| "exec_op db (OSubBalance a n) s = Inr (SubBalance db a n s)"
| "exec_op db (OSetBalance a n) s = Inr (SetBalance db a n s)"
| "exec_op db (OSetNonce a n) s = Inr (SetNonce db a n s)"
| "exec_op db (OSetCode a c) s = Inr (SetCode db a c s)"
| "exec_op db (OSetState a k v) s = SetState db a k v s"
| "exec_op db (OSetStateByteArray a k v) s = Inr (SetStateByteArray db a k v s)"
| "exec_op db (OSuicide a) s = Inr (snd (Suicide a s))"
| "exec_op db (OAddLog l) s = Inr (AddLog l s)"
| "exec_op db (OAddPreimage h p) s = Inr (AddPreimage h p s)"
| "exec_op db (OAddRefund g) s = Inr (AddRefund g s)"
| "exec_op db (OGetAccount a) s = Inr (snd (getStateObject a s))"
| "exec_op db (OGetCode a) s = Inr (snd (GetCode db a s))"
| "exec_op db (OGetCodeSize a) s = Inr (snd (GetCodeSize db a s))"
| "exec_op db (OGetState a k) s = (case GetState db a k s of (Inl e, _) \<Rightarrow> Inl e | (Inr _, s') \<Rightarrow> Inr s')"
| "exec_op db (OGetStateByteArray a k) s = Inr (snd (GetStateByteArray db a k s))"
| "exec_op db OSnapshot s = Inr (snd (Snapshot s))"
| "exec_op db (ORevertToSnapshot i) s = RevertToSnapshot i s"

fun run_ops :: "database \<Rightarrow> state_op list \<Rightarrow> stateDB \<Rightarrow> stateDB result" where
  "run_ops db [] s = Inr s"
| "run_ops db (p # ps) s = res_bind (exec_op db p s) (run_ops db ps)"

lemma exec_op_undoable:
  assumes "db_ok db" and "sdb_inv s" and "exec_op db p s = Inr s'"
    and "p \<noteq> OSnapshot" and "\<And>i. p \<noteq> ORevertToSnapshot i"
  shows "sdbj.undoable db s s'"
proof (cases p)
  case (OSetState a k v)
  with assms show ?thesis using SetState_op by simp
next
  case (OGetState a k)
  with assms(3) have "s' = snd (GetState db a k s)" by (auto split: prod.splits sum.splits)
  with getter_ops(2) [OF assms(2)] show ?thesis by simp
qed (use assms balance_ops setter_ops Suicide_op CreateAccount_op misc_ops getter_ops
      getStateObject_undoable in auto)

text \<open>
  The snapshots of a reachable state: identifiers and journal indices increase, and undoing the
  journal down to the index of any of them is defined.
\<close>

definition rev_ok :: "database \<Rightarrow> stateDB \<Rightarrow> bool" where
  "rev_ok db s \<longleftrightarrow> sdb_inv s \<and>
     sorted_wrt (\<lambda>r r'. fst r < fst r' \<and> snd r \<le> snd r') (validRevisions s) \<and>
     (\<forall>(i, n) \<in> set (validRevisions s). i < nextRevisionId s \<and> n \<le> length (journal s) \<and>
        effs (wundo db) (rev (drop n (journal s))) (world_of db s) \<noteq> None)"

lemma undoable_rev_ok:
  assumes "sdbj.undoable db s s'" and "rev_ok db s"
  shows "rev_ok db s'"
proof -
  obtain es where es: "journal s' = journal s @ es" "effs (wundo db) (rev es) (world_of db s') = Some (world_of db s)"
    and fr: "validRevisions s' = validRevisions s" "nextRevisionId s' = nextRevisionId s" "sdb_inv s'"
    using assms(1) by (auto simp: sdbj.undoable_def)
  have "n \<le> length (journal s) \<Longrightarrow> effs (wundo db) (rev (drop n (journal s'))) (world_of db s') =
      effs (wundo db) (rev (drop n (journal s))) (world_of db s)" for n
    using es by (simp add: effs_append)
  with es(1) fr assms(2) show ?thesis by (fastforce simp: rev_ok_def)
qed

lemma drop_take_split: "m \<le> n \<Longrightarrow> drop m xs = drop m (take n xs) @ drop n xs"
  using drop_append [of m "take n xs" "drop n xs"] by (cases "n \<le> length xs") auto

lemma Snapshot_rev_ok: "rev_ok db s \<Longrightarrow> rev_ok db (snd (Snapshot s))"
  by (fastforce simp: rev_ok_def Snapshot_def Let_def sorted_wrt_append)

lemma revision_at:
  fixes revs :: "(int \<times> nat) list"
  assumes "sorted_wrt (\<lambda>r r'. fst r < fst r' \<and> snd r \<le> snd r') revs" and "k < length revs" and "fst (revs ! k) = i"
  shows "sort_Search (length revs) (\<lambda>j. i \<le> fst (revs ! j)) = k"
proof (rule sort_Search_spec)
  fix j assume j: "j < length revs"
  show "i \<le> fst (revs ! j) \<longleftrightarrow> k \<le> j"
  proof (cases "k \<le> j")
    case True
    then show ?thesis using sorted_wrt_nth_less [OF assms(1), of k j] j assms(3)
      by (cases "k = j") auto
  next
    case False
    then show ?thesis using sorted_wrt_nth_less [OF assms(1), of j k] assms(2,3) by auto
  qed
qed (use assms in simp)

lemma RevertToSnapshot_rev_ok:
  assumes "rev_ok db s" and "k < length (validRevisions s)" and "validRevisions s ! k = (i, n)"
  shows "\<exists>s'. RevertToSnapshot i s = Inr s' \<and> rev_ok db s' \<and>
      effs (wundo db) (rev (drop n (journal s))) (world_of db s) = Some (world_of db s') \<and>
      journal s' = take n (journal s) \<and> validRevisions s' = take k (validRevisions s) \<and>
      nextRevisionId s' = nextRevisionId s"
proof -
  let ?R = "validRevisions s" and ?J = "journal s"
  have srt: "sorted_wrt (\<lambda>r r'. fst r < fst r' \<and> snd r \<le> snd r') ?R" and inv: "sdb_inv s"
    and all: "\<And>j m. (j, m) \<in> set ?R \<Longrightarrow> j < nextRevisionId s \<and> m \<le> length ?J \<and>
        effs (wundo db) (rev (drop m ?J)) (world_of db s) \<noteq> None"
    using assms(1) by (auto simp: rev_ok_def)
  have mem: "(i, n) \<in> set ?R" using assms(2,3) by (metis nth_mem)
  obtain w where w: "effs (wundo db) (rev (drop n ?J)) (world_of db s) = Some w" using all [OF mem] by auto
  obtain s1 where s1: "undo_seq undo (rev (drop n ?J)) s = Inr s1" "world_of db s1 = w" "sdb_inv s1"
      "journal s1 = ?J" "validRevisions s1 = ?R" "nextRevisionId s1 = nextRevisionId s"
    using sdbj.undo_to_length [OF inv _ w] all [OF mem] by auto
  let ?s = "s1\<lparr>journal := take n ?J, validRevisions := take k ?R\<rparr>"
  have idx: "sort_Search (length ?R) (\<lambda>j. i \<le> fst (?R ! j)) = k"
    using revision_at [OF srt assms(2)] assms(3) by simp
  have rv: "RevertToSnapshot i s = Inr ?s"
    using idx assms(2,3) s1 by (simp add: RevertToSnapshot_def Let_def undo_all_seq)
  have "rev_ok db ?s"
    unfolding rev_ok_def
  proof (intro conjI ballI)
    show "sdb_inv ?s" using s1(3,4) by (auto simp: sdb_inv_def list_all_iff dest: in_set_takeD)
    show "sorted_wrt (\<lambda>r r'. fst r < fst r' \<and> snd r \<le> snd r') (validRevisions ?s)"
      using srt by (simp add: sorted_wrt_take)
    fix r assume "r \<in> set (validRevisions ?s)"
    then obtain l where l: "l < k" "r = ?R ! l" by (auto simp: in_set_conv_nth)
    obtain j m where jm: "r = (j, m)" by fastforce
    have r: "(j, m) \<in> set ?R" using l jm assms(2) by (metis nth_mem order.strict_trans)
    have mn: "m \<le> n" using sorted_wrt_nth_less [OF srt l(1) assms(2)] l(2) jm assms(3)
      by (metis snd_conv)
    have "drop m ?J = drop m (take n ?J) @ drop n ?J"
      using mn by (rule drop_take_split)
    then have "effs (wundo db) (rev (drop m (take n ?J))) w \<noteq> None"
      using all [OF r] w by (simp add: effs_append)
    with all [OF r] all [OF mem] mn jm s1 show "case r of (i, n) \<Rightarrow> i < nextRevisionId ?s \<and> n \<le> length (journal ?s) \<and>
        effs (wundo db) (rev (drop n (journal ?s))) (world_of db ?s) \<noteq> None" by simp
  qed
  with rv w s1 show ?thesis by auto
qed

lemma RevertToSnapshot_Inr:
  assumes "RevertToSnapshot i s = Inr s'"
  shows "\<exists>k n. k < length (validRevisions s) \<and> validRevisions s ! k = (i, n)"
proof -
  let ?k = "sort_Search (length (validRevisions s)) (\<lambda>j. i \<le> fst (validRevisions s ! j))"
  have "?k \<noteq> length (validRevisions s)" "fst (validRevisions s ! ?k) = i"
    using assms by (auto simp: RevertToSnapshot_def Let_def split: if_splits)
  moreover have "?k \<le> length (validRevisions s)" by (simp add: sort_Search_le)
  ultimately show ?thesis by (metis le_neq_implies_less prod.collapse)
qed

text \<open>\<open>tracks db i n w J R s\<close>: as long as the snapshot \<open>i\<close> is valid, it leads back to \<open>w\<close>.\<close>

definition tracks :: "database \<Rightarrow> int \<Rightarrow> world \<Rightarrow> journalEntry list \<Rightarrow> (int \<times> nat) list \<Rightarrow> stateDB \<Rightarrow> bool" where
  "tracks db i w J R s \<longleftrightarrow> rev_ok db s \<and> i < nextRevisionId s \<and>
     (\<forall>k < length (validRevisions s). fst (validRevisions s ! k) = i \<longrightarrow>
        snd (validRevisions s ! k) = length J \<and> take (length J) (journal s) = J \<and>
        take k (validRevisions s) = R \<and>
        effs (wundo db) (rev (drop (length J) (journal s))) (world_of db s) = Some w)"

lemma tracks_undoable:
  assumes "sdbj.undoable db s s'" and "tracks db i w J R s"
  shows "tracks db i w J R s'"
proof -
  obtain es where es: "journal s' = journal s @ es" "effs (wundo db) (rev es) (world_of db s') = Some (world_of db s)"
    and fr: "validRevisions s' = validRevisions s" "nextRevisionId s' = nextRevisionId s"
    using assms(1) by (auto simp: sdbj.undoable_def)
  have ro: "rev_ok db s" using assms(2) by (simp add: tracks_def)
  have "take (length J) (journal s') = J \<and>
      effs (wundo db) (rev (drop (length J) (journal s'))) (world_of db s') = Some w"
    if "k < length (validRevisions s)" "fst (validRevisions s ! k) = i" for k
  proof -
    have t: "snd (validRevisions s ! k) = length J" "take (length J) (journal s) = J"
        "effs (wundo db) (rev (drop (length J) (journal s))) (world_of db s) = Some w"
      using assms(2) that by (auto simp: tracks_def)
    from t(2) have "length J \<le> length (journal s)" by (metis length_take min.cobounded1)
    with t es show ?thesis by (simp add: effs_append)
  qed
  with undoable_rev_ok [OF assms(1) ro] fr assms(2) show ?thesis by (auto simp: tracks_def)
qed

lemma tracks_Snapshot:
  assumes "tracks db i w J R s"
  shows "tracks db i w J R (snd (Snapshot s))"
proof -
  have "rev_ok db (snd (Snapshot s))" using assms Snapshot_rev_ok by (simp add: tracks_def)
  moreover have "i < nextRevisionId s" using assms by (simp add: tracks_def)
  ultimately show ?thesis using assms
    by (auto simp: tracks_def Snapshot_def Let_def nth_append less_Suc_eq)
qed

lemma tracks_Revert:
  assumes "tracks db i w J R s" and "RevertToSnapshot j s = Inr s'"
  shows "tracks db i w J R s'"
proof -
  have ro: "rev_ok db s" using assms(1) by (simp add: tracks_def)
  obtain k n where k: "k < length (validRevisions s)" "validRevisions s ! k = (j, n)"
    using RevertToSnapshot_Inr [OF assms(2)] by blast
  have rs: "rev_ok db s'" "effs (wundo db) (rev (drop n (journal s))) (world_of db s) = Some (world_of db s')"
      "journal s' = take n (journal s)" "validRevisions s' = take k (validRevisions s)"
      "nextRevisionId s' = nextRevisionId s"
    using RevertToSnapshot_rev_ok [OF ro k] assms(2) by auto
  have "snd (validRevisions s' ! l) = length J \<and> take (length J) (journal s') = J \<and> take l (validRevisions s') = R \<and>
      effs (wundo db) (rev (drop (length J) (journal s'))) (world_of db s') = Some w"
    if l: "l < length (validRevisions s')" "fst (validRevisions s' ! l) = i" for l
  proof -
    have lk: "l < k" "l < length (validRevisions s)" "validRevisions s' ! l = validRevisions s ! l" using l rs(4) k by auto
    then have t: "snd (validRevisions s ! l) = length J" "take (length J) (journal s) = J" "take l (validRevisions s) = R"
        "effs (wundo db) (rev (drop (length J) (journal s))) (world_of db s) = Some w"
      using assms(1) l by (auto simp: tracks_def)
    have "snd (validRevisions s ! l) \<le> snd (validRevisions s ! k)"
      using ro lk k by (auto simp: rev_ok_def dest: sorted_wrt_nth_less)
    then have Jn: "length J \<le> n" using t(1) k(2) by simp
    have "drop (length J) (journal s) = drop (length J) (take n (journal s)) @ drop n (journal s)"
      using Jn by (rule drop_take_split)
    with t(4) rs(2) have "effs (wundo db) (rev (drop (length J) (take n (journal s)))) (world_of db s') = Some w"
      by (simp add: effs_append)
    with t lk rs Jn show ?thesis by (simp add: min_def)
  qed
  with rs(1,5) assms(1) show ?thesis by (auto simp: tracks_def)
qed

lemma run_ops_tracks:
  assumes "db_ok db" and "tracks db i w J R s" and "run_ops db ps s = Inr s'"
  shows "tracks db i w J R s'"
  using assms(2,3)
proof (induction ps arbitrary: s)
  case (Cons p ps)
  then obtain s1 where s1: "exec_op db p s = Inr s1" "run_ops db ps s1 = Inr s'"
    by (auto simp: res_bind_Inr_iff)
  have inv: "sdb_inv s" using Cons.prems(1) by (simp add: tracks_def rev_ok_def)
  have "tracks db i w J R s1"
  proof (cases "p = OSnapshot \<or> (\<exists>j. p = ORevertToSnapshot j)")
    case True
    then show ?thesis using Cons.prems(1) s1(1) tracks_Snapshot tracks_Revert by auto
  next
    case False
    then have "sdbj.undoable db s s1" using exec_op_undoable [OF assms(1) inv s1(1)] by blast
    then show ?thesis using Cons.prems(1) by (rule tracks_undoable)
  qed
  then show ?case using s1(2) by (rule Cons.IH)
qed simp

lemma Snapshot_tracks:
  assumes "rev_ok db s"
  shows "tracks db (nextRevisionId s) (world_of db s) (journal s) (validRevisions s) (snd (Snapshot s))"
proof -
  have "rev_ok db (snd (Snapshot s))" using assms by (rule Snapshot_rev_ok)
  moreover have ne: "fst (validRevisions s ! k) \<noteq> nextRevisionId s" if "k < length (validRevisions s)" for k
  proof -
    have "validRevisions s ! k \<in> set (validRevisions s)" using that by simp
    with assms have "case validRevisions s ! k of (i, n) \<Rightarrow> i < nextRevisionId s" by (auto simp: rev_ok_def)
    then show ?thesis by (simp split: prod.splits)
  qed
  moreover have "snd ((validRevisions s @ [(nextRevisionId s, n)]) ! k) = n \<and>
      take k (validRevisions s @ [(nextRevisionId s, n)]) = validRevisions s"
    if "k < length (validRevisions s @ [(nextRevisionId s, n)])"
      "fst ((validRevisions s @ [(nextRevisionId s, n)]) ! k) = nextRevisionId s" for k n
  proof -
    have "k = length (validRevisions s)"
      using that ne [of k] by (cases "k < length (validRevisions s)") (simp_all add: nth_append)
    then show ?thesis by simp
  qed
  ultimately show ?thesis
    unfolding tracks_def Snapshot_def Let_def snd_conv stateDB.simps
    by (intro conjI allI impI) (blast | simp)+
qed

text \<open>C7. \<^verbatim>\<open>RevertToSnapshot\<close> is correct: after any sequence of operations, nested snapshots
  and reverts included, that leaves the snapshot valid, reverting to it succeeds and restores every
  account (existence, nonce, balance, code, storage of both kinds, suicide mark), the logs, the
  preimages, the refund counter, the journal and the older snapshots.\<close>

theorem RevertToSnapshot_restores:
  assumes "db_ok db" and "rev_ok db s" and "Snapshot s = (i, s0)" and "run_ops db ops s0 = Inr s1"
    and "i \<in> fst ` set (validRevisions s1)"
  shows "\<exists>s2. RevertToSnapshot i s1 = Inr s2 \<and> rev_ok db s2 \<and> world_of db s2 = world_of db s \<and>
    journal s2 = journal s \<and> validRevisions s2 = validRevisions s"
proof -
  have i: "i = nextRevisionId s" "s0 = snd (Snapshot s)" using assms(3) by (auto simp: Snapshot_def Let_def)
  have t: "tracks db i (world_of db s) (journal s) (validRevisions s) s1"
    using run_ops_tracks [OF assms(1) _ assms(4)] Snapshot_tracks [OF assms(2)] i by simp
  obtain k where k: "k < length (validRevisions s1)" "fst (validRevisions s1 ! k) = i"
    using assms(5) by (auto simp: in_set_conv_nth)
  then have kr: "validRevisions s1 ! k = (i, length (journal s))" and
    f: "take (length (journal s)) (journal s1) = journal s" "take k (validRevisions s1) = validRevisions s"
      "effs (wundo db) (rev (drop (length (journal s)) (journal s1))) (world_of db s1) = Some (world_of db s)"
    using t by (auto simp: tracks_def prod_eq_iff)
  have "rev_ok db s1" using t by (simp add: tracks_def)
  from RevertToSnapshot_rev_ok [OF this k(1) kr] f show ?thesis by auto
qed

end
