(* ===== verification/State_Props.thy ===== *)
theory State_Props
  imports State_View
begin

text \<open>
  Properties of the state database beyond snapshots: that its operations implement the interface
  \<open>world\<close>, that iteration visits every stored value once, that stored accounts are read back,
  and two effects of the undo journal on flags that are outside the interface.  The example states
  at the beginning are shared by the evaluations.
\<close>

section \<open>Examples and witnesses\<close>

text \<open>A small database for evaluating examples: no stored code, empty storage.\<close>

definition toy_db :: database where
  "toy_db = \<lparr>OpenTrie = (\<lambda>_. Inr empty_trie), OpenStorageTrie = (\<lambda>_ _. Inr empty_trie),
     ContractCode = (\<lambda>_ _. Inl (Err ''not found'')), ContractCodeSize = (\<lambda>_ _. Inl (Err ''not found'')),
     trie_Hash = (\<lambda>_. 0), storage_Hash = (\<lambda>_. 0), Keccak256 = BytesToHash\<rparr>"

definition empty_sdb :: "address trie_fun \<Rightarrow> stateDB" where
  "empty_sdb tr = \<lparr>sdb_trie = tr, stateObjects = Map.empty, stateObjectsDirty = {}, sdb_dbErr = None,
     refund = 0, thash = 0, bhash = 0, txIndex = 0, logs = Map.empty, logSize = 0,
     preimages = Map.empty, journal = [], validRevisions = [], nextRevisionId = 0\<rparr>"

lemma empty_sdb_ok: "trie_ok tr \<Longrightarrow> rev_ok db (empty_sdb tr)"
  by (simp add: empty_sdb_def rev_ok_def sdb_inv_def)

lemma New_empty_sdb: "New db root = Inr s \<Longrightarrow> \<exists>tr. OpenTrie db root = Inr tr \<and> s = empty_sdb tr"
  by (auto simp: New_def empty_sdb_def split: sum.splits)

lemma toy_db_ok: "db_ok toy_db"
  by (simp add: db_ok_def toy_db_def)

lemma trie_ok_empty: "trie_ok empty_trie"
  by (simp add: trie_ok_def load_account_def TryGet_def empty_trie_def)

definition revert_ops :: "state_op list" where
  "revert_ops = [OAddBalance 7 100, OSetStateByteArray 7 1 [9], OSnapshot, OSubBalance 7 30,
     OSuicide 7, ORevertToSnapshot 1, OCreateAccount 8, OAddRefund 5]"

theorem RevertToSnapshot_restores_witness:
  "\<exists>s1 s2. run_ops toy_db revert_ops (snd (Snapshot (empty_sdb empty_trie))) = Inr s1 \<and>
     fst (GetBalance 7 s1) = 100 \<and> RevertToSnapshot 0 s1 = Inr s2 \<and>
     world_of toy_db s2 = world_of toy_db (empty_sdb empty_trie)"
proof -
  let ?s = "empty_sdb empty_trie"
  have "case run_ops toy_db revert_ops (snd (Snapshot ?s)) of Inl e \<Rightarrow> False
      | Inr s \<Rightarrow> fst (GetBalance 7 s) = 100 \<and> map fst (validRevisions s) = [0]" by code_simp
  then obtain s1 where s1: "run_ops toy_db revert_ops (snd (Snapshot ?s)) = Inr s1"
      "fst (GetBalance 7 s1) = 100" "map fst (validRevisions s1) = [0]"
    by (auto split: sum.splits)
  from s1(3) have "0 \<in> fst ` set (validRevisions s1)" by (metis list.set_intros(1) list.set_map)
  moreover have "Snapshot ?s = (0, snd (Snapshot ?s))" by (simp add: Snapshot_def empty_sdb_def Let_def)
  ultimately show ?thesis
    using RevertToSnapshot_restores [OF toy_db_ok empty_sdb_ok [OF trie_ok_empty] _ s1(1), of 0] s1 by auto
qed



text \<open>An account that exists in the trie and is empty.\<close>

definition empty_acc_sdb :: stateDB where
  "empty_acc_sdb = empty_sdb (empty_trie(7 := Inr (rlp_enc (account_val (zeroAccount toy_db)))))"

definition touch_example :: "stateDB result" where
  "touch_example =
     res_bind (RevertToSnapshot 0 (AddBalance toy_db 7 0 (snd (Snapshot empty_acc_sdb)))) (\<lambda>s.
       Inr (AddBalance toy_db 7 5 s))"


text \<open>Reverting does not restore \<^verbatim>\<open>Empty\<close>: the undo of a storage write leaves the key
  among the dirty entries, which \<^verbatim>\<open>empty\<close> counts.\<close>

lemma revert_changes_Empty:
  "fst (Empty toy_db 7 empty_acc_sdb) \<and>
   (case RevertToSnapshot 0 (SetStateByteArray toy_db 7 1 [9] (snd (Snapshot empty_acc_sdb))) of
      Inl e \<Rightarrow> False | Inr s \<Rightarrow> \<not> fst (Empty toy_db 7 s) \<and> fst (GetStateByteArray toy_db 7 1 s) = [])"
proof -
  let ?r = "RevertToSnapshot 0 (SetStateByteArray toy_db 7 1 [9] (snd (Snapshot empty_acc_sdb)))"
  have e: "fst (Empty toy_db 7 empty_acc_sdb)" by code_simp
  have "case ?r of Inl e \<Rightarrow> False | Inr s \<Rightarrow> fst (GetStateByteArray toy_db 7 1 s) = [] \<and>
      (case fst (getStateObject 7 s) of None \<Rightarrow> False | Some ob \<Rightarrow> dirtyStorageByteArray ob 1 = Some [])"
    by code_simp
  then obtain s ob where s: "?r = Inr s" "fst (GetStateByteArray toy_db 7 1 s) = []"
      "fst (getStateObject 7 s) = Some ob" "dirtyStorageByteArray ob 1 = Some []"
    by (auto split: sum.splits option.splits)
  then have "\<not> so_empty toy_db ob" by (auto simp: so_empty_def len_nonzero_def)
  moreover obtain s2 where "getStateObject 7 s = (Some ob, s2)"
    using s(3) by (cases "getStateObject 7 s") simp
  ultimately have "\<not> fst (Empty toy_db 7 s)" by (simp add: Empty_def)
  with e s(1,2) show ?thesis by simp
qed

subsection \<open>Iteration\<close>

definition collect :: "(bytes, (hash \<times> bytes) list) callback" where
  "collect k v acc = (True, acc @ [(k, v)])"

lemma for_pairs_collect: "for_pairs collect kvs acc = (True, acc @ kvs)"
  by (induction kvs arbitrary: acc) (auto simp: collect_def)

lemma set_cache_pairs: "set (cache_pairs ck m) = {(k, v). k \<in> set ck \<and> m k = Some v}"
  by (auto simp: cache_pairs_def split: option.splits)

lemma set_trie_pairs: "set (trie_pairs tk skip tr) = {(k, v). k \<in> set tk \<and> \<not> skip k \<and> tr k = Inr v \<and> v \<noteq> []}"
proof (induction tk)
  case (Cons k ks)
  have "trie_pairs (k # ks) skip tr = (if skip k then [] else case tr k of Inl _ \<Rightarrow> [] | Inr v \<Rightarrow> if v = [] then [] else [(k, v)])
      @ trie_pairs ks skip tr"
    by (simp add: trie_pairs_def split: sum.split)
  with Cons.IH show ?case by (auto split: sum.splits)
qed (simp add: trie_pairs_def)

lemma distinct_keys:
  "distinct ck \<Longrightarrow> distinct (map fst (cache_pairs ck m))"
  "distinct tk \<Longrightarrow> distinct (map fst (trie_pairs tk skip tr))"
proof -
  show "distinct ck \<Longrightarrow> distinct (map fst (cache_pairs ck m))"
  proof (induction ck)
    case (Cons k ks)
    then show ?case using set_cache_pairs [of ks m]
      by (auto simp: cache_pairs_def split: option.splits)
  qed (simp add: cache_pairs_def)
  show "distinct tk \<Longrightarrow> distinct (map fst (trie_pairs tk skip tr))"
  proof (induction tk)
    case (Cons k ks)
    then show ?case using set_trie_pairs [of ks skip tr]
      by (auto simp: trie_pairs_def split: sum.splits if_splits)
  qed (simp add: trie_pairs_def)
qed


text \<open>A loaded account with one stored byte array, under the storage trie \<open>store_tr\<close>.\<close>

definition store_db :: database where
  "store_db = toy_db\<lparr>OpenStorageTrie := (\<lambda>_ r. if r = 0 then Inr empty_trie else Inr (empty_trie(1 := Inr [9], 2 := Inr [8])))\<rparr>"

definition stored_sdb :: stateDB where
  "stored_sdb = snd (GetStateByteArray store_db 7 1
     (empty_sdb (empty_trie(7 := Inr (rlp_enc (account_val ((zeroAccount toy_db)\<lparr>Root := 5\<rparr>)))))))"


text \<open>Before the Mercury fork the iteration checks the wrong cache and visits a loaded key
  twice.\<close>

lemma ForEachStorageByteArrayBeforeFork_twice:
  "fst (ForEachStorageByteArray True store_db [1] [1, 2] 7 collect [] stored_sdb) = [(1, [9]), (1, [9]), (2, [8])]"
  by code_simp

subsection \<open>Stored accounts\<close>

lemma decodes_hash: "decodes (decodeByteArray 32 tyn) (hash_bytes h) (rlp_enc (RBytes (hash_bytes h)))"
  using decodes_decodeByteArray [of "hash_bytes h" tyn] by simp

interpretation account_codec: rlp_codec account_val decodeAccount "\<lambda>acc. 0 \<le> Balance acc"
proof
  fix acc assume b: "0 \<le> Balance acc" and l: "length (rlp_enc (account_val acc)) < 2 ^ 64"
  let ?vs = "[RUint (Nonce acc), RBig (Some (Balance acc)), RBytes (hash_bytes (Root acc)), RBytes (CodeHash acc)]"
  have p: "length (concat (map rlp_enc ?vs)) < 2 ^ 64"
    using l length_enc_list_ge [of "concat (map rlp_enc ?vs)"] by (simp only: account_val_def rlp_enc.simps)
  have lb: "length (big_Bytes (Balance acc)) < 2 ^ 64" "length (CodeHash acc) < 2 ^ 64"
    using p length_enc_str_ge [of "big_Bytes (Balance acc)"] length_enc_str_ge [of "CodeHash acc"]
    by simp_all
  have e: "\<lparr>Nonce = Nonce acc, Balance = Balance acc, Root = Root acc, CodeHash = CodeHash acc\<rparr> = acc" by simp
  have "decodes (sbind (struct_field ''state.Account'' decodeUint) (\<lambda>n.
      sbind (struct_field ''state.Account'' decodeBigInt) (\<lambda>b.
      sbind (struct_field ''state.Account'' (decodeByteArray 32 ''common.Hash'')) (\<lambda>r.
      sbind (struct_field ''state.Account'' decodeByteSlice) (\<lambda>c.
        sret \<lparr>Nonce = n, Balance = b, Root = BytesToHash r, CodeHash = c\<rparr>))))) acc
     (rlp_enc (RUint (Nonce acc)) @ (rlp_enc (RBig (Some (Balance acc))) @
        (rlp_enc (RBytes (hash_bytes (Root acc))) @ (rlp_enc (RBytes (CodeHash acc)) @ []))))"
    by (rule decodes_sbind [OF decodes_struct_field [OF decodes_decodeUint]]
             decodes_sbind [OF decodes_struct_field [OF decodes_decodeBigInt [OF b lb(1)]]]
             decodes_sbind [OF decodes_struct_field [OF decodes_hash]]
             decodes_sbind [OF decodes_struct_field [OF decodes_decodeByteSlice [OF lb(2)]]])+
       (simp only: BytesToHash_hash_bytes e decodes_sret)
  from structDecoder_decodes [OF this, of "''state.Account''"] p
  show "decodes decodeAccount acc (rlp_enc (account_val acc))"
    by (simp add: decodeAccount_def account_val_def)
qed (simp_all add: account_val_def decodeAccount_def at_end_decoders)

text \<open>C9. What \<^verbatim>\<open>updateStateObject\<close> writes is what a later \<^verbatim>\<open>getStateObject\<close> loads:
  the account data come back unchanged; a negative balance cannot be written and panics.\<close>

theorem updateStateObject_persists:
  assumes "length (rlp_enc (account_val (so_data ob))) < 2 ^ 64" and "\<exists>v. sdb_trie s (so_address ob) = Inr v"
  shows "if 0 \<le> Balance (so_data ob)
    then \<exists>s'. updateStateObject ob s = Inr s' \<and> load_account (sdb_trie s') (so_address ob) = Some (so_data ob) \<and>
      (\<forall>b. b \<noteq> so_address ob \<longrightarrow> load_account (sdb_trie s') b = load_account (sdb_trie s) b)
    else updateStateObject ob s = Inl (Panic ''can't encode object'')"
proof (cases "0 \<le> Balance (so_data ob)")
  case True
  note rt = account_codec.decode_encoded [OF True assms(1)]
  then show ?thesis using assms(2) True
    by (auto simp: updateStateObject_def TryUpdate_def load_account_def TryGet_def)
next
  case False
  then have "\<not> encodable (account_val (so_data ob))" by (simp add: account_val_def)
  from EncodeToBytes_negative [OF this] False show ?thesis
    by (cases "EncodeToBytes (account_val (so_data ob))") (simp_all add: updateStateObject_def)
qed

theorem updateStateObject_persists_witness:
  "\<exists>s'. updateStateObject (newObject 7 ((zeroAccount toy_db)\<lparr>Balance := 1000\<rparr>)) (empty_sdb empty_trie) = Inr s' \<and>
     map_option Balance (load_account (sdb_trie s') 7) = Some 1000"
proof -
  let ?ob = "newObject 7 ((zeroAccount toy_db)\<lparr>Balance := 1000\<rparr>)"
  have "length (rlp_enc (account_val (so_data ?ob))) \<le> 100" by code_simp
  then have l: "length (rlp_enc (account_val (so_data ?ob))) < 2 ^ 64" by simp
  show ?thesis using updateStateObject_persists [OF l, of "empty_sdb empty_trie"]
    by (auto simp: empty_sdb_def empty_trie_def newObject_def)
qed

end
