(* ===== verification/Pos_Util.thy ===== *)
theory Pos_Util
  imports Go_Prelude
begin

text \<open>
  Time and difficulty arithmetic of the proof-of-stake code: epochs and slots of a time stamp and of a
  block difficulty (\<^verbatim>\<open>pos/util/util.go\<close>), the byte conversions of
  \<^verbatim>\<open>pos/util/convert\<close>, and the constants of \<^verbatim>\<open>pos/posconfig/config.go\<close> they
  use.
\<close>

definition SlotTime :: uint64 where "SlotTime = 5"
definition posK :: uint64 where "posK = 1440"
definition KCount :: uint64 where "KCount = 12"
definition SlotCount :: uint64 where "SlotCount = posK * KCount"
definition ApolloEpochID :: uint64 where "ApolloEpochID = 18104"
definition AugustEpochID :: uint64 where "AugustEpochID = 18116"

definition CalEpochSlotID :: "uint64 \<Rightarrow> uint64 \<times> uint64" where
  "CalEpochSlotID timeUnix =
     (let epochTimespan = SlotTime * SlotCount
      in (timeUnix div epochTimespan, timeUnix div SlotTime mod SlotCount))"

definition CalEpSlbyTd :: "uint64 \<Rightarrow> uint64 \<times> uint64" where
  "CalEpSlbyTd blkTd = (drop_bit 32 blkTd, drop_bit 8 (blkTd AND 0xffffffff))"

definition GetEpochSlotIDFromDifficulty :: "int option \<Rightarrow> uint64 \<times> uint64" where
  "GetEpochSlotIDFromDifficulty difficulty =
     (case difficulty of
        None \<Rightarrow> (0, 0)
      | Some d \<Rightarrow> (drop_bit 32 (big_Uint64 d), drop_bit 8 (big_Uint64 d) AND 0x00ffffff))"

definition Uint64ToBytes :: "uint64 \<Rightarrow> bytes" where
  "Uint64ToBytes input = (if input = 0 then [0] else big_Bytes (big_of_uint64 input))"

definition BytesToUint64 :: "bytes \<Rightarrow> uint64" where
  "BytesToUint64 input = big_Uint64 (big_SetBytes input)"

definition BigIntArrayToByteArray :: "int list \<Rightarrow> bytes list" where
  "BigIntArrayToByteArray input = map big_Bytes input"

definition ByteArrayToBigIntArray :: "bytes list \<Rightarrow> int list" where
  "ByteArrayToBigIntArray input = map big_SetBytes input"

section \<open>Properties\<close>

lemma SlotCount_value: "SlotCount = 17280" "SlotTime * SlotCount = 86400"
  by (simp_all add: SlotCount_def posK_def KCount_def SlotTime_def)

text \<open>C16. Time stamps, slots and epochs agree: a time stamp lies in the slot and the epoch that
  \<^verbatim>\<open>CalEpochSlotID\<close> gives for it, and slot numbers stay below \<^verbatim>\<open>SlotCount\<close>.\<close>

theorem CalEpochSlotID_inverse:
  assumes "CalEpochSlotID t = (e, s)"
  shows "unat s < 17280 \<and> 86400 * unat e + 5 * unat s \<le> unat t \<and> unat t < 86400 * unat e + 5 * unat s + 5"
proof -
  have e: "unat e = unat t div 86400" and s: "unat s = unat t div 5 mod 17280"
    using assms by (auto simp: CalEpochSlotID_def SlotCount_value(2) SlotCount_value(1) SlotTime_def unat_div unat_mod)
  define q where "q = unat t div 5"
  have t: "unat t = 5 * q + unat t mod 5" by (simp add: q_def)
  have q: "q = 17280 * (q div 17280) + q mod 17280" by simp
  have "q div 17280 = unat t div 86400" by (simp add: q_def div_mult2_eq [symmetric])
  moreover have "unat t mod 5 < 5" by simp
  moreover have "q mod 17280 < 17280" by simp
  ultimately show ?thesis using t q unfolding e s q_def [symmetric] by linarith
qed

theorem CalEpochSlotID_inverse_witness:
  "CalEpochSlotID 1573783210 = (18215, 1442) \<and> 86400 * 18215 + 5 * 1442 \<le> (1573783210 :: nat)"
proof -
  have "CalEpochSlotID 1573783210 = (18215, 1442)"
    by (simp add: CalEpochSlotID_def SlotCount_value(2) SlotCount_value(1) SlotTime_def)
  with CalEpochSlotID_inverse [OF this] show ?thesis by simp
qed

text \<open>The epoch and the slot packed in a difficulty are the same for both readers.\<close>

lemma epoch_slot_readers_agree: "GetEpochSlotIDFromDifficulty (Some (uint td)) = CalEpSlbyTd td"
  by (auto simp: GetEpochSlotIDFromDifficulty_def CalEpSlbyTd_def big_Uint64_def bit_eq_iff bit_simps)

lemma BytesToUint64_Uint64ToBytes: "BytesToUint64 (Uint64ToBytes w) = w"
  by (auto simp: BytesToUint64_def Uint64ToBytes_def big_of_uint64_def big_Uint64_def)
    (simp add: big_SetBytes_def be_nat_def)

lemma ByteArrayToBigIntArray_inverse:
  "list_all (\<lambda>x. 0 \<le> x) xs \<Longrightarrow> ByteArrayToBigIntArray (BigIntArrayToByteArray xs) = xs"
  by (induction xs) (auto simp: ByteArrayToBigIntArray_def BigIntArrayToByteArray_def)

end
