(* ===== verification/Abi.thy ===== *)
theory Abi
  imports Go_Prelude
begin

text \<open>
  The contract ABI (\<^verbatim>\<open>accounts/abi\<close>): the argument types, packing of values to the ABI encoding
  (\<^verbatim>\<open>pack.go\<close>, \<^verbatim>\<open>type.go\<close>, \<^verbatim>\<open>Arguments.Pack\<close>) and unpacking
  (\<^verbatim>\<open>unpack.go\<close>, \<^verbatim>\<open>Arguments.UnpackValues\<close>, \<^verbatim>\<open>ABI.UnpackInput\<close>).

  The interface values that reflection moves around are the datatype \<open>abi_value\<close>; Go ints that
  are slice offsets and lengths are \<^typ>\<open>nat\<close>.
\<close>

section \<open>Types and values\<close>

datatype abi_type =
    IntTy nat | UintTy nat | BoolTy | StringTy | SliceTy abi_type | ArrayTy nat abi_type
  | AddressTy | FixedBytesTy nat | BytesTy | HashTy | FixedPointTy | FunctionTy

datatype int_kind = KInt nat | KUint nat | KPtr

datatype abi_value =
    VInt int_kind int | VBool bool | VString bytes | VSlice "abi_value list" | VArray "abi_value list"
  | VAddress address | VFixedBytes bytes | VBytes bytes | VHash hash | VFunction bytes

definition reflectIntKindAndType :: "bool \<Rightarrow> nat \<Rightarrow> int_kind" where
  "reflectIntKindAndType isUnsigned n =
     (if n = 8 \<or> n = 16 \<or> n = 32 \<or> n = 64 then (if isUnsigned then KUint n else KInt n) else KPtr)"

fun requiresLengthPrefix :: "abi_type \<Rightarrow> bool" where
  "requiresLengthPrefix StringTy = True"
| "requiresLengthPrefix BytesTy = True"
| "requiresLengthPrefix (SliceTy _) = True"
| "requiresLengthPrefix _ = False"

fun isDynamicType :: "abi_type \<Rightarrow> bool" where
  "isDynamicType StringTy = True"
| "isDynamicType BytesTy = True"
| "isDynamicType (SliceTy _) = True"
| "isDynamicType (ArrayTy _ e) = isDynamicType e"
| "isDynamicType _ = False"

fun getDynamicTypeOffset :: "abi_type \<Rightarrow> nat" where
  "getDynamicTypeOffset (ArrayTy n e) = (if isDynamicType e then 32 else 32 * n)"
| "getDynamicTypeOffset _ = 32"

section \<open>Packing\<close>

definition U256 :: "int \<Rightarrow> bytes" where
  "U256 n = be_fixed 32 (nat (n mod 2 ^ 256))"

definition RightPadBytes :: "bytes \<Rightarrow> nat \<Rightarrow> bytes" where
  "RightPadBytes b l = (if l \<le> length b then b else b @ replicate (l - length b) 0)"

definition LeftPadBytes :: "bytes \<Rightarrow> nat \<Rightarrow> bytes" where
  "LeftPadBytes b l = (if l \<le> length b then b else replicate (l - length b) 0 @ b)"

definition packNum :: "int \<Rightarrow> bytes" where
  "packNum n = U256 n"

definition packBytesSlice :: "bytes \<Rightarrow> nat \<Rightarrow> bytes" where
  "packBytesSlice b l = packNum (int l) @ RightPadBytes b ((l + 31) div 32 * 32)"

definition typeErr :: go_error where
  "typeErr = Err ''abi: cannot use value as argument''"

text \<open>\<^verbatim>\<open>packElement\<close> after \<^verbatim>\<open>typeCheck\<close>: a value of another kind is an error.\<close>

primrec packElement :: "abi_type \<Rightarrow> abi_value \<Rightarrow> bytes result" where
  "packElement (IntTy n) v =
     (case v of
        VInt k i \<Rightarrow> if k = reflectIntKindAndType False n then Inr (packNum i) else Inl typeErr
      | _ \<Rightarrow> Inl typeErr)"
| "packElement (UintTy n) v =
     (case v of
        VInt k i \<Rightarrow> if k = reflectIntKindAndType True n then Inr (packNum i) else Inl typeErr
      | _ \<Rightarrow> Inl typeErr)"
| "packElement StringTy v =
     (case v of VString s \<Rightarrow> Inr (packBytesSlice s (length s)) | _ \<Rightarrow> Inl typeErr)"
| "packElement AddressTy v =
     (case v of VAddress a \<Rightarrow> Inr (LeftPadBytes (be_fixed 20 (unat a)) 32) | _ \<Rightarrow> Inl typeErr)"
| "packElement BoolTy v =
     (case v of VBool b \<Rightarrow> Inr (be_fixed 32 (if b then 1 else 0)) | _ \<Rightarrow> Inl typeErr)"
| "packElement BytesTy v =
     (case v of VBytes b \<Rightarrow> Inr (packBytesSlice b (length b)) | _ \<Rightarrow> Inl typeErr)"
| "packElement (FixedBytesTy n) v =
     (case v of
        VFixedBytes b \<Rightarrow> if length b = n then Inr (RightPadBytes b 32) else Inl typeErr
      | _ \<Rightarrow> Inl typeErr)"
| "packElement FunctionTy v =
     (case v of
        VFunction b \<Rightarrow> if length b = 24 then Inr (RightPadBytes b 32) else Inl typeErr
      | _ \<Rightarrow> Inl typeErr)"
| "packElement (SliceTy _) v = Inl (Panic ''abi: fatal error'')"
| "packElement (ArrayTy _ _) v = Inl (Panic ''abi: fatal error'')"
| "packElement HashTy v = Inl (Panic ''abi: fatal error'')"
| "packElement FixedPointTy v = Inl (Panic ''abi: fatal error'')"

text \<open>The loop of \<^verbatim>\<open>Type.pack\<close> over the packed elements: \<open>ret\<close>, the running
  \<open>offset\<close> and \<open>tail\<close>.\<close>

fun pack_loop :: "bool \<Rightarrow> nat \<Rightarrow> bytes \<Rightarrow> bytes \<Rightarrow> bytes result list \<Rightarrow> bytes result" where
  "pack_loop offsetReq offset ret tail [] = Inr (ret @ tail)"
| "pack_loop offsetReq offset ret tail (Inl e # vs) = Inl e"
| "pack_loop offsetReq offset ret tail (Inr val # vs) =
     (if \<not> offsetReq then pack_loop offsetReq offset (ret @ val) tail vs
      else pack_loop offsetReq (offset + length val) (ret @ packNum (int offset)) (tail @ val) vs)"

primrec pack :: "abi_type \<Rightarrow> abi_value \<Rightarrow> bytes result" where
  "pack (SliceTy e) v =
     (case v of
        VSlice vs \<Rightarrow> pack_loop (isDynamicType e) (getDynamicTypeOffset e * length vs)
                       (packNum (int (length vs))) [] (map (pack e) vs)
      | _ \<Rightarrow> Inl typeErr)"
| "pack (ArrayTy n e) v =
     (case v of
        VArray vs \<Rightarrow>
          (if length vs \<noteq> n then Inl typeErr
           else pack_loop (isDynamicType e) (getDynamicTypeOffset e * length vs) [] [] (map (pack e) vs))
      | _ \<Rightarrow> Inl typeErr)"
| "pack (IntTy n) v = packElement (IntTy n) v"
| "pack (UintTy n) v = packElement (UintTy n) v"
| "pack BoolTy v = packElement BoolTy v"
| "pack StringTy v = packElement StringTy v"
| "pack AddressTy v = packElement AddressTy v"
| "pack (FixedBytesTy n) v = packElement (FixedBytesTy n) v"
| "pack BytesTy v = packElement BytesTy v"
| "pack HashTy v = packElement HashTy v"
| "pack FixedPointTy v = packElement FixedPointTy v"
| "pack FunctionTy v = packElement FunctionTy v"

fun Pack_loop :: "nat \<Rightarrow> bytes \<Rightarrow> bytes \<Rightarrow> abi_type list \<Rightarrow> abi_value list \<Rightarrow> bytes result" where
  "Pack_loop inputOffset ret variableInput (t # ts) (v # vs) =
     (case pack t v of
        Inl e \<Rightarrow> Inl e
      | Inr packed \<Rightarrow>
          if isDynamicType t
          then Pack_loop (inputOffset + length packed) (ret @ packNum (int inputOffset)) (variableInput @ packed) ts vs
          else Pack_loop inputOffset (ret @ packed) variableInput ts vs)"
| "Pack_loop inputOffset ret variableInput _ _ = Inr (ret @ variableInput)"

definition Pack :: "abi_type list \<Rightarrow> abi_value list \<Rightarrow> bytes result" where
  "Pack ts vs =
     (if length vs \<noteq> length ts then Inl (Err ''argument count mismatch'')
      else Pack_loop (sum_list (map getDynamicTypeOffset ts)) [] [] ts vs)"

section \<open>Unpacking\<close>

definition maxUint256 :: int where "maxUint256 = 2 ^ 256 - 1"
definition maxInt256 :: int where "maxInt256 = 2 ^ 255 - 1"

text \<open>The last \<open>n\<close> bits of the word, as a signed number.\<close>

definition signed_of :: "nat \<Rightarrow> nat \<Rightarrow> int" where
  "signed_of n x = (if x < 2 ^ (n - 1) then int x else int x - 2 ^ n)"

definition readInteger :: "bool \<Rightarrow> int_kind \<Rightarrow> bytes \<Rightarrow> abi_value" where
  "readInteger isUnsigned kind b =
     (case kind of
        KUint n \<Rightarrow> VInt kind (int (be_nat (drop (length b - n div 8) b)))
      | KInt n \<Rightarrow> VInt kind (signed_of n (be_nat (drop (length b - n div 8) b)))
      | KPtr \<Rightarrow>
          let ret = big_SetBytes b
          in if isUnsigned then VInt kind ret
             else if ret > maxInt256 then VInt kind (- (maxUint256 + - ret + 1))
             else VInt kind ret)"

definition readBool :: "bytes \<Rightarrow> bool result" where
  "readBool w =
     (if \<not> list_all (\<lambda>b. b = 0) (take 31 w) then Inl (Err ''abi: improperly encoded boolean value'')
      else if w ! 31 = 0 then Inr False
      else if w ! 31 = 1 then Inr True
      else Inl (Err ''abi: improperly encoded boolean value''))"

definition readFunctionType :: "bytes \<Rightarrow> bytes result" where
  "readFunctionType w =
     (if be_nat (drop 24 w) \<noteq> 0 then Inl (Err ''abi: got improperly encoded function type'')
      else Inr (take 24 w))"

text \<open>Reading past the 32 byte word is a slice out of bounds.\<close>

definition readFixedBytes :: "nat \<Rightarrow> bytes \<Rightarrow> bytes result" where
  "readFixedBytes n w = (if length w < n then Inl (Panic ''slice bounds out of range'') else Inr (take n w))"

primrec getFullElemSize :: "abi_type \<Rightarrow> nat" where
  "getFullElemSize (ArrayTy n e) = n * getFullElemSize e"
| "getFullElemSize (SliceTy _) = 32"
| "getFullElemSize (IntTy _) = 32"
| "getFullElemSize (UintTy _) = 32"
| "getFullElemSize BoolTy = 32"
| "getFullElemSize StringTy = 32"
| "getFullElemSize AddressTy = 32"
| "getFullElemSize (FixedBytesTy _) = 32"
| "getFullElemSize BytesTy = 32"
| "getFullElemSize HashTy = 32"
| "getFullElemSize FixedPointTy = 32"
| "getFullElemSize FunctionTy = 32"

definition go_slice :: "nat \<Rightarrow> nat \<Rightarrow> bytes \<Rightarrow> bytes result" where
  "go_slice i j b =
     (if i \<le> j \<and> j \<le> length b then Inr (take (j - i) (drop i b))
      else Inl (Panic ''slice bounds out of range''))"

definition lengthPrefixPointsTo :: "nat \<Rightarrow> bytes \<Rightarrow> (nat \<times> nat) result" where
  "lengthPrefixPointsTo index output =
     (case go_slice index (index + 32) output of
        Inl e \<Rightarrow> Inl e
      | Inr head \<Rightarrow>
          let bigOffsetEnd = big_SetBytes head + 32; outputLength = int (length output)
          in if bigOffsetEnd > outputLength
             then Inl (Err ''abi: cannot marshal in to go slice: offset would go over slice boundary'')
             else if bigOffsetEnd \<ge> 2 ^ 63 then Inl (Err ''abi offset larger than int64'')
             else case go_slice (nat (bigOffsetEnd - 32)) (nat bigOffsetEnd) output of
                    Inl e \<Rightarrow> Inl e
                  | Inr lb \<Rightarrow>
                      let lengthBig = big_SetBytes lb; totalSize = bigOffsetEnd + lengthBig
                      in if totalSize \<ge> 2 ^ 63 then Inl (Err ''abi length larger than int64'')
                         else if totalSize > outputLength
                         then Inl (Err ''abi: cannot marshal in to go type: length insufficient'')
                         else Inr (nat bigOffsetEnd, nat lengthBig))"

text \<open>The loop of \<^verbatim>\<open>forEachUnpack\<close>: \<open>size\<close> elements from \<open>i\<close> on.\<close>

fun unpack_elems :: "(nat \<Rightarrow> bytes \<Rightarrow> abi_value result) \<Rightarrow> nat \<Rightarrow> bytes \<Rightarrow> nat \<Rightarrow> nat \<Rightarrow> abi_value list result" where
  "unpack_elems rd elemSize output i 0 = Inr []"
| "unpack_elems rd elemSize output i (Suc n) =
     (case rd i output of
        Inl e \<Rightarrow> Inl e
      | Inr iface \<Rightarrow> (case unpack_elems rd elemSize output (i + elemSize) n of
            Inl e \<Rightarrow> Inl e | Inr vs \<Rightarrow> Inr (iface # vs)))"

definition forEachUnpack ::
    "(abi_value list \<Rightarrow> abi_value) \<Rightarrow> (nat \<Rightarrow> bytes \<Rightarrow> abi_value result) \<Rightarrow> nat \<Rightarrow> bytes \<Rightarrow> nat \<Rightarrow> nat \<Rightarrow> abi_value result" where
  "forEachUnpack con rd elemSize output start n =
     (if start + 32 * n > length output
      then Inl (Err ''abi: cannot marshal in to go array: offset would go over slice boundary'')
      else case unpack_elems rd elemSize output start n of Inl e \<Rightarrow> Inl e | Inr vs \<Rightarrow> Inr (con vs))"

text \<open>The beginning of \<^verbatim>\<open>toGoType\<close>: the bounds check, then either the word at the index or the
  place and the length a length prefix points to.\<close>

definition with_word :: "nat \<Rightarrow> bytes \<Rightarrow> (bytes \<Rightarrow> abi_value result) \<Rightarrow> abi_value result" where
  "with_word index output k =
     (if index + 32 > length output
      then Inl (Err ''abi: cannot marshal in to go type: length insufficient'')
      else case go_slice index (index + 32) output of Inl e \<Rightarrow> Inl e | Inr w \<Rightarrow> k w)"

definition with_prefix :: "nat \<Rightarrow> bytes \<Rightarrow> (nat \<Rightarrow> nat \<Rightarrow> abi_value result) \<Rightarrow> abi_value result" where
  "with_prefix index output k =
     (if index + 32 > length output
      then Inl (Err ''abi: cannot marshal in to go type: length insufficient'')
      else case lengthPrefixPointsTo index output of Inl e \<Rightarrow> Inl e | Inr (begin', end') \<Rightarrow> k begin' end')"

primrec toGoType :: "abi_type \<Rightarrow> nat \<Rightarrow> bytes \<Rightarrow> abi_value result" where
  "toGoType (SliceTy e) index output =
     with_prefix index output (\<lambda>b n. forEachUnpack VSlice (toGoType e) (getFullElemSize e) output b n)"
| "toGoType (ArrayTy n e) index output =
     with_word index output (\<lambda>_. forEachUnpack VArray (toGoType e) (getFullElemSize e) output index n)"
| "toGoType StringTy index output =
     with_prefix index output (\<lambda>b n. map_sum id VString (go_slice b (b + n) output))"
| "toGoType (IntTy n) index output =
     with_word index output (\<lambda>w. Inr (readInteger False (reflectIntKindAndType False n) w))"
| "toGoType (UintTy n) index output =
     with_word index output (\<lambda>w. Inr (readInteger True (reflectIntKindAndType True n) w))"
| "toGoType BoolTy index output = with_word index output (\<lambda>w. map_sum id VBool (readBool w))"
| "toGoType AddressTy index output =
     with_word index output (\<lambda>w. Inr (VAddress (word_of_nat (be_nat w))))"
| "toGoType HashTy index output = with_word index output (\<lambda>w. Inr (VHash (word_of_nat (be_nat w))))"
| "toGoType BytesTy index output =
     with_prefix index output (\<lambda>b n. map_sum id VBytes (go_slice b (b + n) output))"
| "toGoType (FixedBytesTy n) index output =
     with_word index output (\<lambda>w. map_sum id VFixedBytes (readFixedBytes n w))"
| "toGoType FunctionTy index output =
     with_word index output (\<lambda>w. map_sum id VFunction (readFunctionType w))"
| "toGoType FixedPointTy index output = with_word index output (\<lambda>_. Inl (Err ''abi: unknown type''))"

primrec getArraySize :: "abi_type \<Rightarrow> nat" where
  "getArraySize (ArrayTy n e) = n * getArraySize e"
| "getArraySize (SliceTy _) = 1"
| "getArraySize (IntTy _) = 1"
| "getArraySize (UintTy _) = 1"
| "getArraySize BoolTy = 1"
| "getArraySize StringTy = 1"
| "getArraySize AddressTy = 1"
| "getArraySize (FixedBytesTy _) = 1"
| "getArraySize BytesTy = 1"
| "getArraySize HashTy = 1"
| "getArraySize FixedPointTy = 1"
| "getArraySize FunctionTy = 1"

text \<open>The loop of \<^verbatim>\<open>UnpackValues\<close>; \<open>slot\<close> is \<^verbatim>\<open>index+virtualArgs\<close>.\<close>

fun UnpackValues_loop :: "nat \<Rightarrow> abi_type list \<Rightarrow> bytes \<Rightarrow> abi_value list result" where
  "UnpackValues_loop slot [] d = Inr []"
| "UnpackValues_loop slot (t # ts) d =
     (case toGoType t (slot * 32) d of
        Inl e \<Rightarrow> Inl e
      | Inr v \<Rightarrow> (case UnpackValues_loop (slot + getArraySize t) ts d of
            Inl e \<Rightarrow> Inl e | Inr vs \<Rightarrow> Inr (v # vs)))"

definition UnpackValues :: "abi_type list \<Rightarrow> bytes \<Rightarrow> abi_value list result" where
  "UnpackValues ts d = UnpackValues_loop 0 ts d"

text \<open>\<^verbatim>\<open>ABI.UnpackInput\<close> for a method of the contract, up to the assignment of the values to the
  fields of the caller's structure.\<close>

definition UnpackInput :: "abi_type list \<Rightarrow> bytes \<Rightarrow> abi_value list result" where
  "UnpackInput ts output =
     (if length output = 0 then Inl (Err ''abi: unmarshalling empty output'')
      else if length output mod 32 \<noteq> 0 then Inl (Err ''abi: improperly formatted output'')
      else UnpackValues ts output)"

section \<open>Lemmas\<close>

text \<open>A type and a value that the encoding carries without loss: elementary types, byte strings, and
  slices and arrays of elementary types.\<close>

fun elementary :: "abi_type \<Rightarrow> bool" where
  "elementary (FixedBytesTy n) = (n \<le> 32)"
| "elementary (IntTy _) = True"
| "elementary (UintTy _) = True"
| "elementary BoolTy = True"
| "elementary AddressTy = True"
| "elementary FunctionTy = True"
| "elementary _ = False"

fun flat :: "abi_type \<Rightarrow> bool" where
  "flat StringTy = True"
| "flat BytesTy = True"
| "flat (SliceTy e) = elementary e"
| "flat (ArrayTy n e) = (0 < n \<and> elementary e)"
| "flat t = elementary t"

fun int_fits :: "bool \<Rightarrow> int_kind \<Rightarrow> int \<Rightarrow> bool" where
  "int_fits u (KUint n) i = (0 \<le> i \<and> i < 2 ^ n)"
| "int_fits u (KInt n) i = (- (2 ^ (n - 1)) \<le> i \<and> i < 2 ^ (n - 1))"
| "int_fits u KPtr i = (if u then 0 \<le> i \<and> i < 2 ^ 256 else - (2 ^ 255) \<le> i \<and> i < 2 ^ 255)"

primrec abi_ok :: "abi_type \<Rightarrow> abi_value \<Rightarrow> bool" where
  "abi_ok (IntTy n) v = (case v of VInt k i \<Rightarrow> k = reflectIntKindAndType False n \<and> int_fits False k i | _ \<Rightarrow> False)"
| "abi_ok (UintTy n) v = (case v of VInt k i \<Rightarrow> k = reflectIntKindAndType True n \<and> int_fits True k i | _ \<Rightarrow> False)"
| "abi_ok BoolTy v = (case v of VBool _ \<Rightarrow> True | _ \<Rightarrow> False)"
| "abi_ok StringTy v = (case v of VString _ \<Rightarrow> True | _ \<Rightarrow> False)"
| "abi_ok BytesTy v = (case v of VBytes _ \<Rightarrow> True | _ \<Rightarrow> False)"
| "abi_ok AddressTy v = (case v of VAddress _ \<Rightarrow> True | _ \<Rightarrow> False)"
| "abi_ok (FixedBytesTy n) v = (case v of VFixedBytes b \<Rightarrow> length b = n | _ \<Rightarrow> False)"
| "abi_ok FunctionTy v = (case v of VFunction b \<Rightarrow> length b = 24 | _ \<Rightarrow> False)"
| "abi_ok (SliceTy e) v = (case v of VSlice vs \<Rightarrow> list_all (abi_ok e) vs | _ \<Rightarrow> False)"
| "abi_ok (ArrayTy n e) v = (case v of VArray vs \<Rightarrow> length vs = n \<and> list_all (abi_ok e) vs | _ \<Rightarrow> False)"
| "abi_ok HashTy v = (case v of VHash _ \<Rightarrow> True | _ \<Rightarrow> False)"
| "abi_ok FixedPointTy v = False"

text \<open>\<open>b\<close> lies in \<open>out\<close> at position \<open>i\<close>.\<close>

definition lies_at :: "nat \<Rightarrow> bytes \<Rightarrow> bytes \<Rightarrow> bool" where
  "lies_at i b out = (\<exists>x y. out = x @ b @ y \<and> length x = i)"

lemma lies_at_slice: "lies_at i b out \<Longrightarrow> length b = n \<Longrightarrow> go_slice i (i + n) out = Inr b"
  by (auto simp: lies_at_def go_slice_def)

lemma lies_at_length: "lies_at i b out \<Longrightarrow> i + length b \<le> length out"
  by (auto simp: lies_at_def)

lemma lies_at_prefix: "lies_at i (b @ c) out \<Longrightarrow> lies_at i b out"
  unfolding lies_at_def by (metis append.assoc)

lemma lies_at_suffix: "lies_at i (b @ c) out \<Longrightarrow> lies_at (i + length b) c out"
  unfolding lies_at_def by (metis append.assoc length_append)

lemma length_U256 [simp]: "length (U256 n) = 32"
  by (simp add: U256_def)

lemma be_nat_U256: "int (be_nat (U256 n)) = n mod 2 ^ 256"
  by (simp add: U256_def be_nat_be_fixed)

lemma be_nat_U256_nat: "n < 2 ^ 256 \<Longrightarrow> be_nat (U256 (int n)) = n"
  using be_nat_U256 [of "int n"] by (simp flip: of_nat_power of_nat_mod)

lemma be_nat_drop: "n \<le> length b \<Longrightarrow> be_nat (drop (length b - n) b) = be_nat b mod 256 ^ n"
proof -
  assume n: "n \<le> length b"
  define d where "d = drop (length b - n) b"
  have l: "length d = n" using n by (simp add: d_def)
  have "be_nat b = be_nat (take (length b - n) b) * 256 ^ n + be_nat d"
    using be_nat_append [of "take (length b - n) b" d] l by (simp add: d_def)
  then show ?thesis using be_nat_less [of d] l by (simp add: d_def)
qed

lemma readInteger_U256:
  assumes "int_fits u (reflectIntKindAndType u n) i"
  shows "readInteger u (reflectIntKindAndType u n) (U256 i) = VInt (reflectIntKindAndType u n) i"
proof (cases "n = 8 \<or> n = 16 \<or> n = 32 \<or> n = 64")
  case True
  then obtain k where n: "n = 8 * k" and k: "k \<le> 32" "0 < k" by (auto intro: that [of 1] that [of 2] that [of 4] that [of 8])
  have "be_nat (drop (32 - k) (U256 i)) = be_nat (U256 i) mod 256 ^ k"
    using be_nat_drop [of k "U256 i"] k by simp
  then have "int (be_nat (drop (32 - k) (U256 i))) = i mod 2 ^ 256 mod 256 ^ k"
    by (simp add: zmod_int be_nat_U256)
  moreover have "(256 :: int) ^ k = 2 ^ n" by (simp add: n power_mult)
  moreover have "(2 :: int) ^ n dvd 2 ^ 256" using k n by (intro le_imp_power_dvd) simp
  ultimately have b: "int (be_nat (drop (32 - k) (U256 i))) = i mod 2 ^ n" by (simp add: mod_mod_cancel)
  show ?thesis
  proof (cases u)
    case True
    with assms \<open>n = 8 \<or> n = 16 \<or> n = 32 \<or> n = 64\<close> show ?thesis
      using b n by (simp add: readInteger_def reflectIntKindAndType_def)
  next
    case False
    have fit: "- (2 ^ (n - 1)) \<le> i" "i < 2 ^ (n - 1)"
      using assms True False by (simp_all add: reflectIntKindAndType_def)
    have "n = Suc (n - 1)" using k n by simp
    then have p: "(2 :: int) ^ n = 2 * 2 ^ (n - 1)" by (metis power_Suc)
    have "signed_of n (be_nat (drop (32 - k) (U256 i))) = i"
    proof (cases "0 \<le> i")
      case True
      then have "int (be_nat (drop (32 - k) (U256 i))) = i" using b p fit by simp
      moreover from this have "be_nat (drop (32 - k) (U256 i)) < 2 ^ (n - 1)"
        using fit(2) by (metis of_nat_less_iff of_nat_numeral of_nat_power)
      ultimately show ?thesis by (simp add: signed_of_def)
    next
      case False
      then have "i mod 2 ^ n = i + 2 ^ n"
        using fit p by (intro int_mod_pos_eq [of _ _ "- 1"]) simp_all
      then have e: "int (be_nat (drop (32 - k) (U256 i))) = i + 2 ^ n" using b by simp
      then have "2 ^ (n - 1) \<le> int (be_nat (drop (32 - k) (U256 i)))" using fit(1) p by linarith
      then have "\<not> be_nat (drop (32 - k) (U256 i)) < 2 ^ (n - 1)"
        by (metis linorder_not_less of_nat_less_iff of_nat_numeral of_nat_power)
      with e show ?thesis by (simp add: signed_of_def)
    qed
    with False True n show ?thesis by (auto simp: readInteger_def reflectIntKindAndType_def)
  qed
next
  case False
  then have k: "reflectIntKindAndType u n = KPtr" by (simp add: reflectIntKindAndType_def)
  show ?thesis
  proof (cases "0 \<le> i")
    case True
    with assms k have "i < 2 ^ 256" by (cases u) simp_all
    with True have "big_SetBytes (U256 i) = i" by (simp add: big_SetBytes_def be_nat_U256)
    with assms k True show ?thesis by (cases u) (simp_all add: readInteger_def maxInt256_def)
  next
    case False
    with assms k have u: "\<not> u" and l: "- (2 ^ 255) \<le> i" by (auto split: if_splits)
    have "i mod 2 ^ 256 = i + 2 ^ 256" using False l by (intro int_mod_pos_eq [of _ _ "- 1"]) simp_all
    then have "big_SetBytes (U256 i) = i + 2 ^ 256" by (simp add: big_SetBytes_def be_nat_U256)
    with u l k show ?thesis by (simp add: readInteger_def maxInt256_def maxUint256_def)
  qed
qed

lemma elementary_static: "elementary t \<Longrightarrow> \<not> isDynamicType t \<and> getDynamicTypeOffset t = 32 \<and> getArraySize t = 1 \<and> getFullElemSize t = 32"
  by (cases t) simp_all

lemma be_nat_zeros [simp]: "be_nat (replicate n 0) = 0"
  by (induction n) (simp_all add: be_nat_Cons)

lemma length_RightPad: "length b \<le> n \<Longrightarrow> length (RightPadBytes b n) = n"
  by (simp add: RightPadBytes_def)

lemma take_RightPad: "length b \<le> n \<Longrightarrow> take (length b) (RightPadBytes b n) = b"
  by (simp add: RightPadBytes_def)

lemma length_LeftPad: "length b \<le> n \<Longrightarrow> length (LeftPadBytes b n) = n"
  by (simp add: LeftPadBytes_def)

lemma readBool_packed: "readBool (be_fixed 32 (if b then 1 else 0)) = Inr b"
proof -
  have "be_fixed 32 (if b then 1 else 0) = replicate 31 0 @ [if b then 1 else 0]"
    by (rule be_nat_inj) (simp_all add: be_nat_be_fixed be_nat_append be_nat_Cons)
  then show ?thesis by (simp add: readBool_def list_all_iff nth_append)
qed

text \<open>An elementary value is one word, and reading that word gives it back.\<close>

lemma elementary_word:
  assumes "elementary t" and "abi_ok t v"
  obtains w where "pack t v = Inr w" and "length w = 32" and "\<And>i out. lies_at i w out \<Longrightarrow> toGoType t i out = Inr v"
proof -
  have word: "with_word i out k = k w" if "lies_at i w out" "length w = 32" for i w out k
    using lies_at_slice [OF that] lies_at_length [OF that(1)] that(2) by (simp add: with_word_def)
  show thesis
  proof (cases t)
    case (IntTy n)
    then obtain i where v: "v = VInt (reflectIntKindAndType False n) i"
      and f: "int_fits False (reflectIntKindAndType False n) i" using assms by (auto split: abi_value.splits)
    show thesis by (rule that [of "U256 i"]) (use IntTy v f in \<open>simp_all add: packNum_def word readInteger_U256\<close>)
  next
    case (UintTy n)
    then obtain i where v: "v = VInt (reflectIntKindAndType True n) i"
      and f: "int_fits True (reflectIntKindAndType True n) i" using assms by (auto split: abi_value.splits)
    show thesis by (rule that [of "U256 i"]) (use UintTy v f in \<open>simp_all add: packNum_def word readInteger_U256\<close>)
  next
    case BoolTy
    then obtain b where v: "v = VBool b" using assms by (auto split: abi_value.splits)
    show thesis
      by (rule that [of "be_fixed 32 (if b then 1 else 0)"])
        (simp_all only: BoolTy v pack.simps packElement.simps toGoType.simps word length_be_fixed readBool_packed map_sum.simps
          abi_value.case)
  next
    case AddressTy
    then obtain a where v: "v = VAddress a" using assms by (auto split: abi_value.splits)
    have "unat a < 2 ^ 160" using unsigned_less [of a] by simp
    then have "be_nat (be_fixed 20 (unat a)) = unat a" by (simp add: be_nat_be_fixed)
    then have b: "be_nat (LeftPadBytes (be_fixed 20 (unat a)) 32) = unat a"
      by (simp add: LeftPadBytes_def be_nat_append)
    show thesis
      by (rule that [of "LeftPadBytes (be_fixed 20 (unat a)) 32"])
        (simp_all add: AddressTy v word length_LeftPad b)
  next
    case (FixedBytesTy n)
    then obtain b where v: "v = VFixedBytes b" and l: "length b = n" "n \<le> 32" using assms by (auto split: abi_value.splits)
    show thesis
      by (rule that [of "RightPadBytes b 32"])
        (use l take_RightPad [of b 32] in \<open>simp_all add: FixedBytesTy v word length_RightPad readFixedBytes_def\<close>)
  next
    case FunctionTy
    then obtain b where v: "v = VFunction b" and l: "length b = 24" using assms by (auto split: abi_value.splits)
    have "drop 24 (RightPadBytes b 32) = replicate 8 0" using l by (simp add: RightPadBytes_def)
    then have "readFunctionType (RightPadBytes b 32) = Inr b"
      using take_RightPad [of b 32] l by (simp add: readFunctionType_def del: be_fixed.simps)
    then show thesis
      by (intro that [of "RightPadBytes b 32"]) (use l in \<open>simp_all add: FunctionTy v word length_RightPad\<close>)
  qed (use assms in simp_all)
qed

lemma elementary_words:
  assumes "elementary e" and "list_all (abi_ok e) vs"
  obtains ws where "map (pack e) vs = map Inr ws" and "length (concat ws) = 32 * length vs"
    and "\<And>i out. lies_at i (concat ws) out \<Longrightarrow> unpack_elems (toGoType e) 32 out i (length vs) = Inr vs"
  using assms(2)
proof (induction vs arbitrary: thesis)
  case Nil
  show thesis by (rule Nil.prems(1) [of "[]"]) simp_all
next
  case (Cons v vs)
  obtain ws where ws: "map (pack e) vs = map Inr ws" "length (concat ws) = 32 * length vs"
      "\<And>i out. lies_at i (concat ws) out \<Longrightarrow> unpack_elems (toGoType e) 32 out i (length vs) = Inr vs"
    using Cons.IH Cons.prems(2) by auto
  obtain w where w: "pack e v = Inr w" "length w = 32" "\<And>i out. lies_at i w out \<Longrightarrow> toGoType e i out = Inr v"
    using elementary_word [OF assms(1), of v] Cons.prems(2) by auto
  have "unpack_elems (toGoType e) 32 out i (length (v # vs)) = Inr (v # vs)" if "lies_at i (concat (w # ws)) out" for i out
    using w(3) [of i out] ws(3) [of "i + 32" out] lies_at_prefix [of i w "concat ws" out]
      lies_at_suffix [of i w "concat ws" out] w(2) that by simp
  then show thesis by (intro Cons.prems(1) [of "w # ws"]) (simp_all add: ws w)
qed

lemma pack_loop_static: "pack_loop False off ret tail (map Inr ws) = Inr (ret @ concat ws @ tail)"
  by (induction ws arbitrary: ret) simp_all

text \<open>A static value lies in the head of the encoding.\<close>

lemma static_value:
  assumes "flat t" and "abi_ok t v" and "\<not> isDynamicType t"
  obtains b where "pack t v = Inr b" and "length b = getDynamicTypeOffset t" and "length b = 32 * getArraySize t"
    and "\<And>i out. lies_at i b out \<Longrightarrow> toGoType t i out = Inr v"
proof (cases "elementary t")
  case True
  from elementary_word [OF this assms(2)] obtain b where "pack t v = Inr b" "length b = 32"
    "\<And>i out. lies_at i b out \<Longrightarrow> toGoType t i out = Inr v" by blast
  with elementary_static [OF True] show thesis by (intro that [of b]) simp_all
next
  case False
  with assms obtain n e vs where t: "t = ArrayTy n e" "0 < n" "elementary e"
    and v: "v = VArray vs" "length vs = n" "list_all (abi_ok e) vs"
    by (cases t) (auto split: abi_value.splits)
  note e = elementary_static [OF t(3)]
  obtain ws where ws: "map (pack e) vs = map Inr ws" "length (concat ws) = 32 * n"
      "\<And>i out. lies_at i (concat ws) out \<Longrightarrow> unpack_elems (toGoType e) 32 out i n = Inr vs"
    using elementary_words [OF t(3) v(3)] v(2) by metis
  have "toGoType t i out = Inr v" if l: "lies_at i (concat ws) out" for i out
  proof -
    have b: "i + 32 * n \<le> length out" using lies_at_length [OF l] ws(2) by simp
    moreover from b t(2) have "i + 32 \<le> length out" by (cases n) simp_all
    moreover from this have "go_slice i (i + 32) out = Inr (take 32 (drop i out))" by (simp add: go_slice_def)
    ultimately show ?thesis
      using ws(3) [OF l] e by (simp add: t v with_word_def forEachUnpack_def)
  qed
  then show thesis
    by (intro that [of "concat ws"]) (use ws e pack_loop_static [of _ "[]" "[]" ws] in \<open>simp_all add: t v\<close>)
qed

lemma prefix_found:
  assumes "lies_at i (U256 (int o')) out" and "lies_at o' (U256 (int n) @ b) out" and "n \<le> length b"
    and "length out < 2 ^ 63"
  shows "with_prefix i out k = k (o' + 32) n"
proof -
  have b: "o' + 32 + n \<le> length out" using lies_at_length [OF assms(2)] assms(3) by simp
  have "o' < 2 ^ 63" "n < 2 ^ 63" using b assms(4) by simp_all
  then have "be_nat (U256 (int o')) = o'" "be_nat (U256 (int n)) = n" by (simp_all add: be_nat_U256_nat)
  moreover have "go_slice i (i + 32) out = Inr (U256 (int o'))" by (rule lies_at_slice [OF assms(1)]) simp
  moreover have "go_slice o' (o' + 32) out = Inr (U256 (int n))"
    by (rule lies_at_slice [OF lies_at_prefix [OF assms(2)]]) simp
  moreover have "i + 32 \<le> length out" using lies_at_length [OF assms(1)] by simp
  ultimately show ?thesis using b assms(4) 
    by (simp add: with_prefix_def lengthPrefixPointsTo_def Let_def big_SetBytes_def nat_add_distrib)
qed

lemma round_up_ge: "n \<le> (n + 31) div 32 * 32" for n :: nat
  by presburger

text \<open>A dynamic value lies where the offset in the head points to.\<close>

lemma dynamic_value:
  assumes "flat t" and "abi_ok t v" and "isDynamicType t"
  obtains b where "pack t v = Inr b"
    and "\<And>i o' out. lies_at i (U256 (int o')) out \<Longrightarrow> lies_at o' b out \<Longrightarrow> length out < 2 ^ 63 \<Longrightarrow> toGoType t i out = Inr v"
proof -
  have str: "with_prefix i out (\<lambda>b n. map_sum id con (go_slice b (b + n) out)) = Inr (con s)"
    if "lies_at i (U256 (int o')) out" "lies_at o' (packBytesSlice s (length s)) out" "length out < 2 ^ 63"
    for con :: "bytes \<Rightarrow> abi_value" and s i o' out
  proof -
    let ?p = "RightPadBytes s ((length s + 31) div 32 * 32)"
    have l: "lies_at o' (U256 (int (length s)) @ ?p) out" using that(2) by (simp add: packBytesSlice_def packNum_def)
    have p: "length s \<le> length ?p" using round_up_ge [of "length s"] by (simp add: length_RightPad)
    obtain z where "?p = s @ z" by (cases "(length s + 31) div 32 * 32 \<le> length s") (simp_all add: RightPadBytes_def)
    then have "lies_at (o' + 32) s out" using lies_at_suffix [OF l] lies_at_prefix [of _ s z] by simp
    then have "go_slice (o' + 32) (o' + 32 + length s) out = Inr s" by (rule lies_at_slice) simp
    with prefix_found [OF that(1) l p that(3)] show ?thesis by simp
  qed
  show thesis
  proof (cases t)
    case StringTy
    with assms obtain s where "v = VString s" by (auto split: abi_value.splits)
    with StringTy str show thesis by (intro that [of "packBytesSlice s (length s)"]) simp_all
  next
    case BytesTy
    with assms obtain s where "v = VBytes s" by (auto split: abi_value.splits)
    with BytesTy str show thesis by (intro that [of "packBytesSlice s (length s)"]) simp_all
  next
    case (SliceTy e)
    with assms obtain vs where e: "elementary e" and v: "v = VSlice vs" "list_all (abi_ok e) vs"
      by (auto split: abi_value.splits)
    obtain ws where ws: "map (pack e) vs = map Inr ws" "length (concat ws) = 32 * length vs"
        "\<And>i out. lies_at i (concat ws) out \<Longrightarrow> unpack_elems (toGoType e) 32 out i (length vs) = Inr vs"
      using elementary_words [OF e v(2)] by metis
    let ?b = "U256 (int (length vs)) @ concat ws"
    have "toGoType t i out = Inr v"
      if "lies_at i (U256 (int o')) out" "lies_at o' ?b out" "length out < 2 ^ 63" for i o' out
    proof -
      have "lies_at (o' + 32) (concat ws) out" using lies_at_suffix [OF that(2)] by simp
      from ws(3) [OF this] lies_at_length [OF this] show ?thesis
        using prefix_found [OF that(1,2) _ that(3)] ws(2) elementary_static [OF e]
        by (simp add: SliceTy v forEachUnpack_def)
    qed
    then show thesis
      using pack_loop_static [of _ "U256 (int (length vs))" "[]" ws] elementary_static [OF e] ws(1)
      by (intro that [of ?b]) (simp_all add: SliceTy v packNum_def)
  qed (use assms elementary_static in auto)
qed

lemma flat_packs:
  assumes "flat t" and "abi_ok t v"
  shows "\<exists>b. pack t v = Inr b \<and> (\<not> isDynamicType t \<longrightarrow> length b = getDynamicTypeOffset t)"
proof (cases "isDynamicType t")
  case True
  show ?thesis by (rule dynamic_value [OF assms True]) (simp add: True)
next
  case False
  show ?thesis by (rule static_value [OF assms False]) simp
qed

lemma Pack_loop_shape:
  assumes "list_all flat ts" and "list_all2 abi_ok ts vs" and "Pack_loop off ret var ts vs = Inr out"
  shows "\<exists>h t. out = ret @ h @ var @ t \<and> length h = sum_list (map getDynamicTypeOffset ts)"
  using assms
proof (induction ts arbitrary: vs off ret var)
  case Nil
  then show ?case by (intro exI [of _ "[]"]) simp
next
  case (Cons t ts)
  obtain v vs' where vs: "vs = v # vs'" "abi_ok t v" "list_all2 abi_ok ts vs'"
    using Cons.prems(2) by (auto simp: list_all2_Cons1)
  have t: "flat t" and ts: "list_all flat ts" using Cons.prems(1) by simp_all
  show ?case
  proof (cases "isDynamicType t")
    case True
    from flat_packs [OF t vs(2)] obtain b where b: "pack t v = Inr b" by blast
    have "Pack_loop (off + length b) (ret @ packNum (int off)) (var @ b) ts vs' = Inr out"
      using Cons.prems(3) b True by (simp add: vs(1))
    from Cons.IH [OF ts vs(3) this] obtain h tl where
      h: "out = (ret @ packNum (int off)) @ h @ (var @ b) @ tl" "length h = sum_list (map getDynamicTypeOffset ts)" by blast
    have "getDynamicTypeOffset t = 32" using True by (cases t) simp_all
    then show ?thesis
      by (intro exI [of _ "packNum (int off) @ h"] exI [of _ "b @ tl"]) (simp add: h packNum_def)
  next
    case False
    from flat_packs [OF t vs(2)] False obtain b where b: "pack t v = Inr b" "length b = getDynamicTypeOffset t" by blast
    have "Pack_loop off (ret @ b) var ts vs' = Inr out" using Cons.prems(3) b False by (simp add: vs(1))
    from Cons.IH [OF ts vs(3) this] obtain h tl where
      h: "out = (ret @ b) @ h @ var @ tl" "length h = sum_list (map getDynamicTypeOffset ts)" by blast
    show ?thesis by (intro exI [of _ "b @ h"] exI [of _ tl]) (simp add: h b)
  qed
qed

lemma Pack_loop_roundtrip:
  assumes "list_all flat ts" and "list_all2 abi_ok ts vs" and "Pack_loop off ret var ts vs = Inr out"
    and "length ret = 32 * slot" and "off = length ret + sum_list (map getDynamicTypeOffset ts) + length var"
    and "length out < 2 ^ 63"
  shows "UnpackValues_loop slot ts out = Inr vs"
  using assms(1-5)
proof (induction ts arbitrary: vs off ret var slot)
  case Nil
  then show ?case by simp
next
  case (Cons t ts)
  obtain v vs' where vs: "vs = v # vs'" "abi_ok t v" "list_all2 abi_ok ts vs'"
    using Cons.prems(2) by (auto simp: list_all2_Cons1)
  have t: "flat t" and ts: "list_all flat ts" using Cons.prems(1) by simp_all
  show ?case
  proof (cases "isDynamicType t")
    case True
    from dynamic_value [OF t vs(2) True] obtain b where b: "pack t v = Inr b"
      and rd: "\<And>i o' out. lies_at i (U256 (int o')) out \<Longrightarrow> lies_at o' b out \<Longrightarrow> length out < 2 ^ 63 \<Longrightarrow> toGoType t i out = Inr v"
      by blast
    have sz: "getDynamicTypeOffset t = 32" "getArraySize t = 1"
      using True t by (cases t; simp add: elementary_static)+
    have pl: "Pack_loop (off + length b) (ret @ packNum (int off)) (var @ b) ts vs' = Inr out"
      using Cons.prems(3) b True by (simp add: vs(1))
    from Pack_loop_shape [OF ts vs(3) pl] obtain h tl where
      h: "out = (ret @ packNum (int off)) @ h @ (var @ b) @ tl" "length h = sum_list (map getDynamicTypeOffset ts)" by blast
    have "lies_at (slot * 32) (U256 (int off)) out"
      unfolding lies_at_def by (rule exI [of _ ret], rule exI [of _ "h @ (var @ b) @ tl"])
        (use Cons.prems(4) in \<open>simp add: h(1) packNum_def\<close>)
    moreover have "lies_at off b out"
      unfolding lies_at_def by (rule exI [of _ "ret @ packNum (int off) @ h @ var"], rule exI [of _ tl])
        (use Cons.prems(5) h sz in \<open>simp add: packNum_def\<close>)
    ultimately have "toGoType t (slot * 32) out = Inr v" using assms(6) by (rule rd)
    moreover have "UnpackValues_loop (slot + 1) ts out = Inr vs'"
      by (rule Cons.IH [OF ts vs(3) pl]) (use Cons.prems(4,5) sz in \<open>simp_all add: packNum_def\<close>)
    ultimately show ?thesis using sz by (simp add: vs(1))
  next
    case False
    from static_value [OF t vs(2) False] obtain b where b: "pack t v = Inr b" "length b = getDynamicTypeOffset t"
      "length b = 32 * getArraySize t" and rd: "\<And>i out. lies_at i b out \<Longrightarrow> toGoType t i out = Inr v"
      by blast
    have pl: "Pack_loop off (ret @ b) var ts vs' = Inr out" using Cons.prems(3) b False by (simp add: vs(1))
    from Pack_loop_shape [OF ts vs(3) pl] obtain h tl where h: "out = (ret @ b) @ h @ var @ tl" by blast
    have "lies_at (slot * 32) b out"
      unfolding lies_at_def h by (rule exI [of _ ret], rule exI [of _ "h @ var @ tl"]) (use Cons.prems(4) in simp)
    then have "toGoType t (slot * 32) out = Inr v" by (rule rd)
    moreover have "UnpackValues_loop (slot + getArraySize t) ts out = Inr vs'"
      by (rule Cons.IH [OF ts vs(3) pl]) (use Cons.prems(4,5) b in simp_all)
    ultimately show ?thesis by (simp add: vs(1))
  qed
qed

lemma Pack_loop_succeeds:
  assumes "list_all flat ts" and "list_all2 abi_ok ts vs"
  shows "\<exists>out. Pack_loop off ret var ts vs = Inr out"
  using assms
proof (induction ts arbitrary: vs off ret var)
  case (Cons t ts)
  obtain v vs' where vs: "vs = v # vs'" "abi_ok t v" "list_all2 abi_ok ts vs'"
    using Cons.prems(2) by (auto simp: list_all2_Cons1)
  have t: "flat t" and ts: "list_all flat ts" using Cons.prems(1) by simp_all
  from flat_packs [OF t vs(2)] obtain b where "pack t v = Inr b" by blast
  with Cons.IH [OF ts vs(3)] show ?case by (simp add: vs(1))
qed simp

section \<open>Properties\<close>

text \<open>C12. What \<^verbatim>\<open>Arguments.Pack\<close> packs, \<^verbatim>\<open>Arguments.UnpackValues\<close> reads back: for
  arguments of elementary types, byte strings and slices or arrays of elementary types, packing
  succeeds and unpacking the encoding returns the values.\<close>

theorem Unpack_Pack:
  assumes "list_all flat ts" and "list_all2 abi_ok ts vs"
  shows "\<exists>out. Pack ts vs = Inr out \<and> (length out < 2 ^ 63 \<longrightarrow> UnpackValues ts out = Inr vs)"
proof -
  have l: "length vs = length ts" using assms(2) by (simp add: list_all2_lengthD)
  from Pack_loop_succeeds [OF assms] obtain out where
    out: "Pack_loop (sum_list (map getDynamicTypeOffset ts)) [] [] ts vs = Inr out" by blast
  have "UnpackValues_loop 0 ts out = Inr vs" if "length out < 2 ^ 63"
    by (rule Pack_loop_roundtrip [OF assms out]) (use that in simp_all)
  with out l show ?thesis by (simp add: Pack_def UnpackValues_def)
qed

theorem Unpack_Pack_witness:
  "\<exists>out. Pack [BytesTy, AddressTy, ArrayTy 2 (IntTy 16)]
       [VBytes [1, 2, 3], VAddress 77, VArray [VInt (KInt 16) 5, VInt (KInt 16) (- 3)]] = Inr out"
  using Unpack_Pack [of "[BytesTy, AddressTy, ArrayTy 2 (IntTy 16)]"
      "[VBytes [1, 2, 3], VAddress 77, VArray [VInt (KInt 16) 5, VInt (KInt 16) (- 3)]]"]
  by (auto simp: reflectIntKindAndType_def)

text \<open>Unpacking is safe on every input: types whose fixed byte arrays fit a word.\<close>

primrec wf_type :: "abi_type \<Rightarrow> bool" where
  "wf_type (FixedBytesTy n) = (n \<le> 32)"
| "wf_type (ArrayTy _ e) = wf_type e"
| "wf_type (SliceTy e) = wf_type e"
| "wf_type (IntTy _) = True"
| "wf_type (UintTy _) = True"
| "wf_type BoolTy = True"
| "wf_type StringTy = True"
| "wf_type AddressTy = True"
| "wf_type BytesTy = True"
| "wf_type HashTy = True"
| "wf_type FixedPointTy = True"
| "wf_type FunctionTy = True"

lemma go_slice_word: "i + 32 \<le> length out \<Longrightarrow> \<exists>w. go_slice i (i + 32) out = Inr w \<and> length w = 32"
  by (simp add: go_slice_def)

lemma with_word_no_panic:
  assumes "\<And>w. length w = 32 \<Longrightarrow> k w \<noteq> Inl (Panic m)"
  shows "with_word i out k \<noteq> Inl (Panic m)"
  using assms go_slice_word [of i out] by (auto simp: with_word_def)

lemma lengthPrefix_cases:
  assumes "i + 32 \<le> length out"
  shows "(\<exists>s. lengthPrefixPointsTo i out = Inl (Err s)) \<or>
         (\<exists>b n. lengthPrefixPointsTo i out = Inr (b, n) \<and> b + n \<le> length out)"
proof -
  from go_slice_word [OF assms] obtain h where h: "go_slice i (i + 32) out = Inr h" by blast
  define o' where "o' = be_nat h"
  show ?thesis
  proof (cases "o' + 32 \<le> length out")
    case True
    from go_slice_word [OF True] obtain lb where "go_slice o' (o' + 32) out = Inr lb" by blast
    with h True show ?thesis 
      by (auto simp: lengthPrefixPointsTo_def Let_def o'_def big_SetBytes_def nat_add_distrib)
  qed (auto simp: lengthPrefixPointsTo_def Let_def h o'_def big_SetBytes_def)
qed

lemma with_prefix_no_panic:
  assumes "\<And>b n. b + n \<le> length out \<Longrightarrow> k b n \<noteq> Inl (Panic m)"
  shows "with_prefix i out k \<noteq> Inl (Panic m)"
proof (cases "i + 32 \<le> length out")
  case True
  from lengthPrefix_cases [OF True] show ?thesis using assms by (auto simp: with_prefix_def)
qed (simp add: with_prefix_def)

lemma unpack_elems_no_panic:
  "(\<And>i. rd i out \<noteq> Inl (Panic m)) \<Longrightarrow> unpack_elems rd es out i n \<noteq> Inl (Panic m)"
  by (induction n arbitrary: i) (auto split: sum.splits)

lemma forEachUnpack_no_panic:
  "(\<And>i. rd i out \<noteq> Inl (Panic m)) \<Longrightarrow> forEachUnpack con rd es out i n \<noteq> Inl (Panic m)"
  using unpack_elems_no_panic [of rd out m es i n] by (auto simp: forEachUnpack_def split: sum.splits)

lemma toGoType_no_panic: "wf_type t \<Longrightarrow> toGoType t i out \<noteq> Inl (Panic m)"
proof (induction t arbitrary: i)
  case (SliceTy e)
  then show ?case by (simp add: with_prefix_no_panic forEachUnpack_no_panic)
next
  case (ArrayTy n e)
  then show ?case by (simp add: with_word_no_panic forEachUnpack_no_panic)
qed (auto intro!: with_word_no_panic with_prefix_no_panic
    simp: go_slice_def readFixedBytes_def readBool_def readFunctionType_def split: if_splits)

lemma UnpackValues_loop_no_panic:
  "list_all wf_type ts \<Longrightarrow> UnpackValues_loop slot ts out \<noteq> Inl (Panic m)"
proof (induction ts arbitrary: slot)
  case (Cons t ts)
  then show ?case using toGoType_no_panic [of t "slot * 32" out m] by (auto split: sum.splits)
qed simp

text \<open>C13. Unpacking never panics: for well-formed argument types, every byte string given to
  \<^verbatim>\<open>UnpackInput\<close> yields values or an error value.\<close>

theorem UnpackInput_no_panic:
  assumes "list_all wf_type ts"
  shows "UnpackInput ts out \<noteq> Inl (Panic m)"
  using UnpackValues_loop_no_panic [OF assms] by (simp add: UnpackInput_def UnpackValues_def)

theorem UnpackInput_no_panic_witness:
  "UnpackInput [BytesTy, SliceTy (FixedBytesTy 32)] (replicate 64 255) \<noteq> Inl (Panic ''slice bounds out of range'')"
  by (rule UnpackInput_no_panic) simp

lemma readInteger_fits:
  assumes "length b = 32"
  shows "\<exists>i. readInteger u (reflectIntKindAndType u n) b = VInt (reflectIntKindAndType u n) i \<and>
    int_fits u (reflectIntKindAndType u n) i"
proof (cases "n = 8 \<or> n = 16 \<or> n = 32 \<or> n = 64")
  case True
  then obtain k where n: "n = 8 * k" and k: "k \<le> 32" "0 < k"
    by (auto intro: that [of 1] that [of 2] that [of 4] that [of 8])
  define x where "x = be_nat (drop (32 - k) b)"
  have "length (drop (32 - k) b) = k" using assms k by simp
  then have "x < 256 ^ k" using be_nat_less [of "drop (32 - k) b"] by (simp add: x_def)
  then have x: "x < 2 ^ n" by (simp add: n power_mult)
  have "n = Suc (n - 1)" using k n by simp
  then have p: "(2 :: int) ^ n = 2 * 2 ^ (n - 1)" by (metis power_Suc)
  have "int x < 2 ^ n" using x by (metis of_nat_less_iff of_nat_numeral of_nat_power)
  moreover have "x < 2 ^ (n - 1) \<longleftrightarrow> int x < 2 ^ (n - 1)" by (metis of_nat_less_iff of_nat_numeral of_nat_power)
  ultimately have "int_fits u (reflectIntKindAndType u n) (if u then int x else signed_of n x)"
    using True p by (auto simp: reflectIntKindAndType_def signed_of_def simp del: One_nat_def)
  then show ?thesis using True n assms by (auto simp: readInteger_def reflectIntKindAndType_def x_def)
next
  case False
  then have k: "reflectIntKindAndType u n = KPtr" by (simp add: reflectIntKindAndType_def)
  have "be_nat b < 2 ^ 256" using be_nat_less [of b] assms by simp
  then obtain x where "big_SetBytes b = x" "x < 2 ^ 256" "0 \<le> x" by (simp add: big_SetBytes_def)
  then show ?thesis by (auto simp: k readInteger_def maxInt256_def maxUint256_def Let_def)
qed

lemma with_word_Inr: "with_word i out k = Inr v \<Longrightarrow> \<exists>w. length w = 32 \<and> k w = Inr v"
  using go_slice_word [of i out] by (auto simp: with_word_def split: if_splits)

lemma with_prefix_Inr: "with_prefix i out k = Inr v \<Longrightarrow> \<exists>b n. k b n = Inr v"
  by (auto simp: with_prefix_def split: if_splits sum.splits)

lemma unpack_elems_all:
  "unpack_elems rd es out i n = Inr vs \<Longrightarrow> (\<And>i v. rd i out = Inr v \<Longrightarrow> P v) \<Longrightarrow> length vs = n \<and> list_all P vs"
  by (induction n arbitrary: i vs) (auto split: sum.splits)

lemma forEachUnpack_all:
  assumes "forEachUnpack con rd es out i n = Inr v" and "\<And>i v. rd i out = Inr v \<Longrightarrow> P v"
  shows "\<exists>vs. v = con vs \<and> length vs = n \<and> list_all P vs"
proof -
  obtain vs where vs: "unpack_elems rd es out i n = Inr vs" "v = con vs"
    using assms(1) by (auto simp: forEachUnpack_def split: if_splits sum.splits)
  from unpack_elems_all [OF vs(1), of P] assms(2) vs(2) show ?thesis by blast
qed

lemma toGoType_ok: "wf_type t \<Longrightarrow> toGoType t i out = Inr v \<Longrightarrow> abi_ok t v"
proof (induction t arbitrary: i v)
  case (IntTy n)
  then obtain w where "length w = 32" "readInteger False (reflectIntKindAndType False n) w = v"
    by (auto dest!: with_word_Inr)
  with readInteger_fits [of w False n] show ?case by auto
next
  case (UintTy n)
  then obtain w where "length w = 32" "readInteger True (reflectIntKindAndType True n) w = v"
    by (auto dest!: with_word_Inr)
  with readInteger_fits [of w True n] show ?case by auto
next
  case (SliceTy e)
  then obtain b n where "forEachUnpack VSlice (toGoType e) (getFullElemSize e) out b n = Inr v"
    by (auto dest!: with_prefix_Inr)
  with SliceTy forEachUnpack_all [of VSlice "toGoType e" _ out b n v "abi_ok e"] show ?case by fastforce
next
  case (ArrayTy m e)
  then obtain w where "forEachUnpack VArray (toGoType e) (getFullElemSize e) out i m = Inr v"
    by (auto dest!: with_word_Inr)
  with ArrayTy forEachUnpack_all [of VArray "toGoType e" _ out i m v "abi_ok e"] show ?case by fastforce
next
  case (FixedBytesTy n)
  then show ?case by (auto dest!: with_word_Inr simp: readFixedBytes_def split: if_splits)
next
  case FunctionTy
  then show ?case by (auto dest!: with_word_Inr simp: readFunctionType_def split: if_splits)
next
  case BoolTy
  then obtain w where "map_sum id VBool (readBool w) = Inr v" by (auto dest!: with_word_Inr)
  then show ?case by (cases "readBool w") auto
next
  case StringTy
  then obtain b n where "map_sum id VString (go_slice b (b + n) out) = Inr v" by (auto dest!: with_prefix_Inr)
  then show ?case by (cases "go_slice b (b + n) out") auto
next
  case BytesTy
  then obtain b n where "map_sum id VBytes (go_slice b (b + n) out) = Inr v" by (auto dest!: with_prefix_Inr)
  then show ?case by (cases "go_slice b (b + n) out") auto
qed (auto dest!: with_word_Inr)

lemma UnpackValues_loop_ok:
  "list_all wf_type ts \<Longrightarrow> UnpackValues_loop slot ts out = Inr vs \<Longrightarrow> list_all2 abi_ok ts vs"
proof (induction ts arbitrary: slot vs)
  case (Cons t ts)
  then show ?case using toGoType_ok [of t "slot * 32" out] by (auto split: sum.splits)
qed simp

lemma UnpackInput_ok:
  "UnpackInput ts out = Inr vs \<Longrightarrow> list_all wf_type ts \<Longrightarrow> list_all2 abi_ok ts vs"
  using UnpackValues_loop_ok [of ts 0 out vs] by (simp add: UnpackInput_def UnpackValues_def split: if_splits)



text \<open>Byte strings in unpacked data are shorter than $2^{63}$.\<close>

lemma lengthPrefix_short: "lengthPrefixPointsTo i out = Inr (s, n) \<Longrightarrow> n < 2 ^ 63"
  by (auto simp: lengthPrefixPointsTo_def Let_def big_SetBytes_def split: if_splits sum.splits)

lemma toGoType_BytesTy_short:
  assumes "toGoType BytesTy i out = Inr (VBytes b)"
  shows "length b < 2 ^ 63"
proof -
  obtain s n where l: "lengthPrefixPointsTo i out = Inr (s, n)" "map_sum id VBytes (go_slice s (s + n) out) = Inr (VBytes b)"
    using assms by (auto simp: with_prefix_def split: if_splits sum.splits)
  from l(2) have "length b = n" by (cases "go_slice s (s + n) out") (auto simp: go_slice_def split: if_splits)
  with lengthPrefix_short [OF l(1)] show ?thesis by simp
qed

fun be_int :: "nat \<Rightarrow> int \<Rightarrow> bytes" where
  "be_int 0 x = []"
| "be_int (Suc k) x = be_int k (x div 256) @ [word_of_int (x mod 256)]"

lemma be_int_mod: "be_int k x = be_fixed k (nat (x mod 256 ^ k))"
proof (induction k arbitrary: x)
  case (Suc k)
  have "x mod 256 ^ Suc k = x mod 256 + 256 * (x div 256 mod 256 ^ k)"
    by (simp add: mod_mult2_eq' zmod_zmult2_eq)
  then have "nat (x mod 256 ^ Suc k) = nat (x mod 256) + 256 * nat (x div 256 mod 256 ^ k)"
    by (simp add: nat_add_distrib nat_mult_distrib)
  moreover have "nat (x mod 256) < 256" by simp
  ultimately show ?case using Suc.IH [of "x div 256"] by (simp add: nat_add_distrib of_nat_nat)
qed simp

lemma be_fixed_code [code]: "be_fixed k n = be_int k (int n)"
proof (induction k arbitrary: n)
  case (Suc k)
  have "int n div 256 = int (n div 256)" "int n mod 256 = int (n mod 256)" by (simp_all add: zdiv_int zmod_int)
  with Suc.IH [of "n div 256"] show ?case by (simp only: be_fixed.simps be_int.simps of_int_of_nat_eq)
qed simp

lemma U256_code [code]: "U256 n = be_int 32 n"
  by (simp add: be_int_mod U256_def)

lemma big_SetBytes_code [code]: "big_SetBytes bs = foldl (\<lambda>a b. a * 256 + uint b) 0 bs"
  by (induction bs rule: rev_induct) (simp_all add: big_SetBytes_def)


end
