(* ===== verification/Vm_Call.thy ===== *)
theory Vm_Call
  imports State_Props
begin

text \<open>
  The frame of the virtual machine (\<^verbatim>\<open>core/vm/evm.go\<close>, \<^verbatim>\<open>core/vm/contract.go\<close>,
  \<^verbatim>\<open>core/evm.go\<close>): contracts and their callers, gas, value transfer, the four call variants,
  contract creation and the dispatch to precompiled contracts; the storage and log helpers of the
  precompiled contracts (\<^verbatim>\<open>pos_storage.go\<close>, \<^verbatim>\<open>contracts_event.go\<close>).

  The state database is used through its abstract view \<^typ>\<open>world\<close>.  A snapshot is the world at
  the time it is taken, and reverting to it gives that world back, which is what the state database
  does.  The byte code interpreter is a parameter of every operation that runs code.
\<close>

section \<open>State operations with an error\<close>

type_synonym ('s, 'a) mop = "'s \<Rightarrow> 'a result \<times> 's"

type_synonym 'a wop = "(world, 'a) mop"

definition wret :: "'a \<Rightarrow> ('s, 'a) mop" where
  "wret x w = (Inr x, w)"

definition wfail :: "go_error \<Rightarrow> ('s, 'a) mop" where
  "wfail e w = (Inl e, w)"

definition wlift :: "'a result \<Rightarrow> ('s, 'a) mop" where
  "wlift r w = (r, w)"

definition wbind :: "('s, 'a) mop \<Rightarrow> ('a \<Rightarrow> ('s, 'b) mop) \<Rightarrow> ('s, 'b) mop" where
  "wbind m k w = (case m w of (Inl e, w1) \<Rightarrow> (Inl e, w1) | (Inr x, w1) \<Rightarrow> k x w1)"

definition wthen :: "('s, unit) mop \<Rightarrow> ('s, 'b) mop \<Rightarrow> ('s, 'b) mop" where
  "wthen m k = wbind m (\<lambda>_. k)"

definition wread :: "('s \<Rightarrow> 'a) \<Rightarrow> ('s, 'a) mop" where
  "wread f w = (Inr (f w), w)"

definition wmodify :: "('s \<Rightarrow> 's) \<Rightarrow> ('s, unit) mop" where
  "wmodify f w = (Inr (), f w)"

text \<open>\<^verbatim>\<open>if bad { return nil, errors.New(msg) }\<close>\<close>

definition wcheck :: "bool \<Rightarrow> string \<Rightarrow> ('s, unit) mop" where
  "wcheck bad msg = (if bad then wfail (Err msg) else wret ())"

section \<open>The state database seen from the virtual machine\<close>

definition wAddLog :: "Log \<Rightarrow> world \<Rightarrow> world" where
  "wAddLog l w =
     w\<lparr>w_logs := (w_logs w)(w_thash w := w_logs w (w_thash w) @
         [l\<lparr>log_TxHash := w_thash w, log_BlockHash := w_bhash w,
            log_TxIndex := word_of_int (w_txIndex w), log_Index := w_logSize w\<rparr>]),
       w_logSize := w_logSize w + 1\<rparr>"

definition wExist :: "address \<Rightarrow> world \<Rightarrow> bool" where
  "wExist a w = (w_acct w a \<noteq> None)"

definition wGetNonce :: "address \<Rightarrow> world \<Rightarrow> uint64" where
  "wGetNonce a w = (case w_acct w a of None \<Rightarrow> 0 | Some v \<Rightarrow> v_nonce v)"

definition wGetCodeHash :: "address \<Rightarrow> world \<Rightarrow> hash" where
  "wGetCodeHash a w = (case w_acct w a of None \<Rightarrow> 0 | Some v \<Rightarrow> v_codehash v)"

definition wGetCode :: "address \<Rightarrow> world \<Rightarrow> bytes" where
  "wGetCode a w = (case w_acct w a of None \<Rightarrow> [] | Some v \<Rightarrow> (case v_code v of None \<Rightarrow> [] | Some c \<Rightarrow> c))"

definition BytesToAddress :: "bytes \<Rightarrow> address" where
  "BytesToAddress b = word_of_nat (be_nat b)"

definition BigToAddress :: "int \<Rightarrow> address" where
  "BigToAddress b = BytesToAddress (big_Bytes b)"

definition BigToHash :: "int \<Rightarrow> hash" where
  "BigToHash b = BytesToHash (big_Bytes b)"

definition StoreInfo :: "database \<Rightarrow> address \<Rightarrow> hash \<Rightarrow> bytes \<Rightarrow> unit wop" where
  "StoreInfo db listAddr pubHash info =
     (if pubHash = 0 then wfail (Err ''public key hash is not right'')
      else wmodify (wSetStateByteArray db listAddr pubHash info))"

definition GetInfo :: "address \<Rightarrow> hash \<Rightarrow> bytes wop" where
  "GetInfo listAddr pubHash =
     (if pubHash = 0 then wfail (Err ''public key hash is not right'')
      else wread (wGetStateByteArray listAddr pubHash))"

definition UpdateInfo :: "database \<Rightarrow> address \<Rightarrow> hash \<Rightarrow> bytes \<Rightarrow> unit wop" where
  "UpdateInfo db listAddr pubHash info = StoreInfo db listAddr pubHash info"

section \<open>Contracts\<close>

record contract =
  CallerAddress :: address
  con_self :: address
  con_Code :: bytes
  con_CodeHash :: hash
  con_CodeAddr :: "address option"
  con_Input :: bytes
  con_Gas :: uint64
  con_value :: int
  con_DelegateCall :: bool

datatype contractRef = AccountRef address | ContractRef contract

fun ref_Address :: "contractRef \<Rightarrow> address" where
  "ref_Address (AccountRef a) = a"
| "ref_Address (ContractRef c) = con_self c"

definition NewContract :: "contractRef \<Rightarrow> address \<Rightarrow> int \<Rightarrow> uint64 \<Rightarrow> contract" where
  "NewContract caller object v gas =
     \<lparr>CallerAddress = ref_Address caller, con_self = object, con_Code = [], con_CodeHash = 0,
      con_CodeAddr = None, con_Input = [], con_Gas = gas, con_value = v, con_DelegateCall = False\<rparr>"

text \<open>The caller must be a contract: the type assertion panics otherwise.\<close>

definition AsDelegate :: "contractRef \<Rightarrow> contract \<Rightarrow> contract result" where
  "AsDelegate caller c =
     (case caller of
        ContractRef parent \<Rightarrow> Inr (c\<lparr>con_DelegateCall := True, CallerAddress := CallerAddress parent,
                                     con_value := con_value parent\<rparr>)
      | AccountRef _ \<Rightarrow> Inl (Panic ''interface conversion''))"

definition GetByte :: "contract \<Rightarrow> uint64 \<Rightarrow> byte" where
  "GetByte c n = (if unat n < length (con_Code c) then con_Code c ! unat n else 0)"

definition UseGas :: "uint64 \<Rightarrow> contract \<Rightarrow> bool \<times> contract" where
  "UseGas gas c = (if con_Gas c < gas then (False, c) else (True, c\<lparr>con_Gas := con_Gas c - gas\<rparr>))"

definition SetCallCode :: "address \<Rightarrow> hash \<Rightarrow> bytes \<Rightarrow> contract \<Rightarrow> contract" where
  "SetCallCode addr h code c = c\<lparr>con_Code := code, con_CodeHash := h, con_CodeAddr := Some addr\<rparr>"

section \<open>The machine\<close>

text \<open>The view of an account has no storage root; \<open>ctx_Empty\<close> is the answer of the state
  database to \<^verbatim>\<open>Empty\<close>, which also looks at the root and the dirty storage.\<close>

record vmctx =
  ctx_db :: database
  ctx_Origin :: address
  ctx_GasPrice :: int
  ctx_Coinbase :: address
  ctx_GasLimit :: int
  ctx_BlockNumber :: int
  ctx_Time :: int
  ctx_Difficulty :: int
  ctx_GetHash :: "uint64 \<Rightarrow> hash"
  ctx_Empty :: "address \<Rightarrow> world \<Rightarrow> bool"

record precompiled =
  pc_RequiredGas :: "bytes \<Rightarrow> uint64"
  pc_Run :: "vmctx \<Rightarrow> bytes \<Rightarrow> contract \<Rightarrow> bytes wop"

record evm =
  ev_ctx :: vmctx
  ev_precompiles :: "address \<Rightarrow> precompiled option"
  ev_depth :: nat
  ev_NoRecursion :: bool
  ev_readOnly :: bool
  ev_EnablePreimageRecording :: bool

text \<open>What running code gives: the returned data, an error, the contract with the gas that is left,
  and the state.\<close>

type_synonym outcome = "bytes \<times> go_error option \<times> contract \<times> world"

type_synonym interp = "evm \<Rightarrow> contract \<Rightarrow> bytes \<Rightarrow> world \<Rightarrow> outcome"

definition CallCreateDepth :: nat where "CallCreateDepth = 1024"
definition MaxCodeSize :: nat where "MaxCodeSize = 24576"
definition CreateDataGas :: uint64 where "CreateDataGas = 200"

definition ErrOutOfGas :: go_error where "ErrOutOfGas = Err ''out of gas''"
definition ErrCodeStoreOutOfGas :: go_error where
  "ErrCodeStoreOutOfGas = Err ''contract creation code storage out of gas''"
definition ErrDepth :: go_error where "ErrDepth = Err ''max call depth exceeded''"
definition ErrInsufficientBalance :: go_error where
  "ErrInsufficientBalance = Err ''insufficient balance for transfer''"
definition ErrContractAddressCollision :: go_error where
  "ErrContractAddressCollision = Err ''contract address collision''"
definition errExecutionReverted :: go_error where "errExecutionReverted = Err ''evm: execution reverted''"
definition errMaxCodeSizeExceeded :: go_error where
  "errMaxCodeSizeExceeded = Err ''evm: max code size exceeded''"

lemmas vm_errors = ErrOutOfGas_def ErrCodeStoreOutOfGas_def ErrDepth_def ErrInsufficientBalance_def
  ErrContractAddressCollision_def errExecutionReverted_def errMaxCodeSizeExceeded_def

definition wanCoinPrecompileAddr :: address where "wanCoinPrecompileAddr = 100"
definition wanStampPrecompileAddr :: address where "wanStampPrecompileAddr = 200"
definition WanCscPrecompileAddr :: address where "WanCscPrecompileAddr = 218"
definition StakersInfoAddr :: address where "StakersInfoAddr = 400"
definition StakingCommonAddr :: address where "StakingCommonAddr = 401"
definition StakersFeeAddr :: address where "StakersFeeAddr = 402"
definition StakersMaxFeeAddr :: address where "StakersMaxFeeAddr = 403"
definition slotLeaderPrecompileAddr :: address where "slotLeaderPrecompileAddr = 600"
definition IncentivePrecompileAddr :: address where "IncentivePrecompileAddr = 606"
definition randomBeaconPrecompileAddr :: address where "randomBeaconPrecompileAddr = 610"
definition PosControlPrecompileAddr :: address where "PosControlPrecompileAddr = 612"

lemmas precompile_addrs = wanCoinPrecompileAddr_def wanStampPrecompileAddr_def WanCscPrecompileAddr_def
  StakersInfoAddr_def StakingCommonAddr_def StakersFeeAddr_def StakersMaxFeeAddr_def
  slotLeaderPrecompileAddr_def IncentivePrecompileAddr_def randomBeaconPrecompileAddr_def
  PosControlPrecompileAddr_def

definition IsPosPrecompiledAddr :: "address option \<Rightarrow> bool" where
  "IsPosPrecompiledAddr addr =
     (case addr of None \<Rightarrow> False
      | Some a \<Rightarrow> a = slotLeaderPrecompileAddr \<or> a = IncentivePrecompileAddr \<or> a = randomBeaconPrecompileAddr)"

definition CanTransfer :: "world \<Rightarrow> address \<Rightarrow> int \<Rightarrow> bool" where
  "CanTransfer w addr amount = (wGetBalance addr w \<ge> amount)"

definition Transfer :: "database \<Rightarrow> address \<Rightarrow> address \<Rightarrow> int \<Rightarrow> world \<Rightarrow> world" where
  "Transfer db sender recipient amount w = wAddBalance db recipient amount (wSubBalance db sender amount w)"

definition precompiledScAddLog :: "vmctx \<Rightarrow> address \<Rightarrow> hash \<Rightarrow> hash list \<Rightarrow> bytes \<Rightarrow> unit wop" where
  "precompiledScAddLog ctx contractAddress evenID argsValue d =
     wmodify (wAddLog \<lparr>log_Address = contractAddress, log_Topics = evenID # argsValue, log_Data = d,
       log_BlockNumber = big_Uint64 (ctx_BlockNumber ctx), log_TxHash = 0, log_TxIndex = 0,
       log_BlockHash = 0, log_Index = 0, log_Removed = False\<rparr>)"

definition RunPrecompiledContract :: "vmctx \<Rightarrow> precompiled \<Rightarrow> bytes \<Rightarrow> contract \<Rightarrow> world \<Rightarrow> outcome" where
  "RunPrecompiledContract ctx p input c w =
     (case UseGas (pc_RequiredGas p input) c of
        (False, c1) \<Rightarrow> ([], Some ErrOutOfGas, c1, w)
      | (True, c1) \<Rightarrow> (case pc_Run p ctx input c1 w of
            (Inl e, w1) \<Rightarrow> ([], Some e, c1, w1)
          | (Inr ret, w1) \<Rightarrow> (ret, None, c1, w1)))"

definition vm_run :: "interp \<Rightarrow> evm \<Rightarrow> contract \<Rightarrow> bytes \<Rightarrow> world \<Rightarrow> outcome" where
  "vm_run interp ev c input w =
     (case con_CodeAddr c of
        None \<Rightarrow> interp ev c input w
      | Some a \<Rightarrow> (case ev_precompiles ev a of
            Some p \<Rightarrow> RunPrecompiledContract (ev_ctx ev) p input c w
          | None \<Rightarrow> interp ev c input w))"

text \<open>What every call does with the outcome of the code: on an error the state goes back to the
  snapshot, and the remaining gas is consumed unless the code reverted.  A panic is not an error value:
  no statement after it runs.\<close>

type_synonym call_out = "bytes \<times> uint64 \<times> go_error option \<times> world"

definition settle :: "world \<Rightarrow> outcome \<Rightarrow> call_out" where
  "settle snapshot out =
     (case out of (ret, err, c, w) \<Rightarrow>
        (case err of
           None \<Rightarrow> (ret, con_Gas c, None, w)
         | Some (Panic m) \<Rightarrow> (ret, con_Gas c, Some (Panic m), w)
         | Some (Err m) \<Rightarrow>
             if Err m \<noteq> errExecutionReverted
             then (ret, con_Gas (snd (UseGas (con_Gas c) c)), Some (Err m), snapshot)
             else (ret, con_Gas c, Some (Err m), snapshot)))"

definition Call :: "interp \<Rightarrow> evm \<Rightarrow> contractRef \<Rightarrow> address \<Rightarrow> bytes \<Rightarrow> uint64 \<Rightarrow> int \<Rightarrow> world \<Rightarrow> call_out" where
  "Call interp ev caller addr input gas v w =
     (let db = ctx_db (ev_ctx ev) in
      if ev_NoRecursion ev \<and> 0 < ev_depth ev then ([], gas, None, w)
      else if CallCreateDepth < ev_depth ev then ([], gas, Some ErrDepth, w)
      else if \<not> CanTransfer w (ref_Address caller) v then ([], gas, Some ErrInsufficientBalance, w)
      else if \<not> wExist addr w \<and> ev_precompiles ev addr = None \<and> v = 0 then ([], gas, None, w)
      else
        let w1 = (if wExist addr w then w else wCreateAccount db addr w);
            w2 = (if addr \<noteq> wanCoinPrecompileAddr \<and> addr \<noteq> wanStampPrecompileAddr
                  then Transfer db (ref_Address caller) addr v w1 else w1);
            c = SetCallCode addr (wGetCodeHash addr w2) (wGetCode addr w2) (NewContract caller addr v gas)
        in settle w (vm_run interp ev c input w2))"

definition CallCode :: "interp \<Rightarrow> evm \<Rightarrow> contractRef \<Rightarrow> address \<Rightarrow> bytes \<Rightarrow> uint64 \<Rightarrow> int \<Rightarrow> world \<Rightarrow> call_out" where
  "CallCode interp ev caller addr input gas v w =
     (if ev_NoRecursion ev \<and> 0 < ev_depth ev then ([], gas, None, w)
      else if CallCreateDepth < ev_depth ev then ([], gas, Some ErrDepth, w)
      else if \<not> CanTransfer w (ref_Address caller) v then ([], gas, Some ErrInsufficientBalance, w)
      else
        let c = SetCallCode addr (wGetCodeHash addr w) (wGetCode addr w)
                  (NewContract caller (ref_Address caller) v gas)
        in settle w (vm_run interp ev c input w))"

text \<open>\<^verbatim>\<open>DelegateCall\<close> passes a nil value to \<^verbatim>\<open>NewContract\<close>, which \<^verbatim>\<open>AsDelegate\<close>
  replaces at once.\<close>

definition DelegateCall :: "interp \<Rightarrow> evm \<Rightarrow> contractRef \<Rightarrow> address \<Rightarrow> bytes \<Rightarrow> uint64 \<Rightarrow> world \<Rightarrow> call_out" where
  "DelegateCall interp ev caller addr input gas w =
     (if ev_NoRecursion ev \<and> 0 < ev_depth ev then ([], gas, None, w)
      else if CallCreateDepth < ev_depth ev then ([], gas, Some ErrDepth, w)
      else
        (case AsDelegate caller (NewContract caller (ref_Address caller) 0 gas) of
           Inl e \<Rightarrow> ([], gas, Some e, w)
         | Inr c0 \<Rightarrow>
             let c = SetCallCode addr (wGetCodeHash addr w) (wGetCode addr w) c0
             in settle w (vm_run interp ev c input w)))"

definition StaticCall :: "interp \<Rightarrow> evm \<Rightarrow> contractRef \<Rightarrow> address \<Rightarrow> bytes \<Rightarrow> uint64 \<Rightarrow> world \<Rightarrow> call_out" where
  "StaticCall interp ev caller addr input gas w =
     (if ev_NoRecursion ev \<and> 0 < ev_depth ev then ([], gas, None, w)
      else if CallCreateDepth < ev_depth ev then ([], gas, Some ErrDepth, w)
      else
        let ev1 = ev\<lparr>ev_readOnly := True\<rparr>;
            c = SetCallCode addr (wGetCodeHash addr w) (wGetCode addr w) (NewContract caller addr 0 gas)
        in settle w (vm_run interp ev1 c input w))"

text \<open>\<^verbatim>\<open>crypto.CreateAddress\<close>: the last twenty bytes of the hash of the RLP list of the address and
  the nonce.\<close>

definition CreateAddress :: "database \<Rightarrow> address \<Rightarrow> uint64 \<Rightarrow> address" where
  "CreateAddress db b nonce =
     (case EncodeToBytes (RList [RBytes (be_fixed 20 (unat b)), RUint nonce]) of
        Inl _ \<Rightarrow> ucast (Keccak256 db []) | Inr d \<Rightarrow> ucast (Keccak256 db d))"

definition Create :: "interp \<Rightarrow> evm \<Rightarrow> contractRef \<Rightarrow> bytes \<Rightarrow> uint64 \<Rightarrow> int \<Rightarrow> world \<Rightarrow> address \<times> call_out" where
  "Create interp ev caller code gas v w =
     (let db = ctx_db (ev_ctx ev) in
      if CallCreateDepth < ev_depth ev then (0, [], gas, Some ErrDepth, w)
      else if \<not> CanTransfer w (ref_Address caller) v then (0, [], gas, Some ErrInsufficientBalance, w)
      else
        let nonce = wGetNonce (ref_Address caller) w;
            w1 = wSetNonce db (ref_Address caller) (nonce + 1) w;
            contractAddr = CreateAddress db (ref_Address caller) nonce
        in
        if \<not> ctx_Empty (ev_ctx ev) contractAddr w1 then (0, [], 0, Some ErrContractAddressCollision, w1)
        else
          let w2 = wSetNonce db contractAddr 1 (wCreateAccount db contractAddr w1);
              w3 = Transfer db (ref_Address caller) contractAddr v w2;
              c = SetCallCode contractAddr (Keccak256 db code) code (NewContract caller contractAddr v gas)
          in
          if ev_NoRecursion ev \<and> 0 < ev_depth ev then (contractAddr, [], gas, None, w3)
          else
            (case vm_run interp ev c [] w3 of
               (ret, err, c1, w4) \<Rightarrow>
                 let exceeded = MaxCodeSize < length ret;
                     createDataGas = of_nat (length ret) * CreateDataGas;
                     (err1, c2, w5) =
                       (if err = None \<and> \<not> exceeded
                        then (case UseGas createDataGas c1 of
                                (True, c2) \<Rightarrow> (None, c2, wSetCode db contractAddr ret w4)
                              | (False, c2) \<Rightarrow> (Some ErrCodeStoreOutOfGas, c2, w4))
                        else (err, c1, w4));
                     (_, gas1, _, w6) =
                       settle w1 (ret, if exceeded \<and> err1 = None then Some errMaxCodeSizeExceeded else err1, c2, w5)
                 in (contractAddr, ret, gas1,
                     (if exceeded \<and> err1 = None then Some errMaxCodeSizeExceeded else err1), w6)))"

section \<open>Lemmas\<close>

lemmas wop_defs = wret_def wfail_def wlift_def wbind_def wthen_def wread_def wmodify_def wcheck_def

text \<open>The view of the virtual machine is what the state database answers.\<close>

lemma vm_view_refines:
  assumes "sdb_inv s"
  shows "world_of db (AddLog l s) = wAddLog l (world_of db s)"
    and "fst (Exist a s) = wExist a (world_of db s)"
    and "fst (GetNonce a s) = wGetNonce a (world_of db s)"
    and "fst (GetCodeHash a s) = wGetCodeHash a (world_of db s)"
    and "(case fst (GetCode db a s) of None \<Rightarrow> [] | Some c \<Rightarrow> c) = wGetCode a (world_of db s)"
proof -
  show "world_of db (AddLog l s) = wAddLog l (world_of db s)"
    by (auto simp: AddLog_def wAddLog_def Let_def world_of_def acct_view_def log_list_def append_journal_def
        fun_eq_iff split: option.split)
  show "fst (Exist a s) = wExist a (world_of db s)" "fst (GetNonce a s) = wGetNonce a (world_of db s)"
    "fst (GetCodeHash a s) = wGetCodeHash a (world_of db s)"
    "(case fst (GetCode db a s) of None \<Rightarrow> [] | Some c \<Rightarrow> c) = wGetCode a (world_of db s)"
    by (rule getStateObject_cases [OF assms, where a = a and db = db];
        auto simp: Exist_def wExist_def GetNonce_def wGetNonce_def GetCodeHash_def wGetCodeHash_def
          GetCode_def wGetCode_def obj_view_def split: prod.split)+
qed

lemma zero_view_balance [simp]: "v_balance (zero_view db) = 0"
  by (simp add: zero_view_def)

lemma wGetBalance_wSubBalance [simp]:
  "wGetBalance a (wSubBalance db b n w) = wGetBalance a w - (if a = b \<and> 0 < n then n else 0)"
  by (simp add: wGetBalance_def wSubBalance_def wUpd_def wEnsure_def split: option.split)

lemma wGetBalance_wAddBalance [simp]:
  "wGetBalance a (wAddBalance db b n w) = wGetBalance a w + (if a = b \<and> 0 < n then n else 0)"
  by (simp add: wGetBalance_def wAddBalance_def wUpd_def wEnsure_def split: option.split)

lemma wGetBalance_wCreateAccount [simp]: "wGetBalance a (wCreateAccount db b w) = wGetBalance a w"
  by (simp add: wGetBalance_def wCreateAccount_def split: option.split)

lemma wGetBalance_wSetStateByteArray [simp]: "wGetBalance a (wSetStateByteArray db b k x w) = wGetBalance a w"
  by (simp add: wGetBalance_def wSetStateByteArray_def wUpd_def wEnsure_def split: option.split)

lemma wGetBalance_wSetNonce [simp]: "wGetBalance a (wSetNonce db b n w) = wGetBalance a w"
  by (simp add: wGetBalance_def wSetNonce_def wUpd_def wEnsure_def split: option.split)

lemma wGetBalance_wSetCode [simp]: "wGetBalance a (wSetCode db b c w) = wGetBalance a w"
  by (simp add: wGetBalance_def wSetCode_def wUpd_def wEnsure_def split: option.split)

lemma wGetBalance_wAddLog [simp]: "wGetBalance a (wAddLog l w) = wGetBalance a w"
  by (simp add: wGetBalance_def wAddLog_def)

lemma wGetBalance_Transfer:
  "wGetBalance a (Transfer db s r n w) =
     wGetBalance a w - (if a = s \<and> 0 < n then n else 0) + (if a = r \<and> 0 < n then n else 0)"
  by (simp add: Transfer_def)

lemma zero_view_bytes [simp]: "v_bytes (zero_view db) k = []"
  by (simp add: zero_view_def)

lemma wGetStateByteArray_wSetStateByteArray [simp]:
  "wGetStateByteArray a k (wSetStateByteArray db b j x w) =
     (if a = b \<and> k = j then x else wGetStateByteArray a k w)"
  by (auto simp: wGetStateByteArray_def wSetStateByteArray_def wUpd_def wEnsure_def split: option.split)

lemma wGetStateByteArray_balance_ops [simp]:
  "wGetStateByteArray a k (wAddBalance db b n w) = wGetStateByteArray a k w"
  "wGetStateByteArray a k (wSubBalance db b n w) = wGetStateByteArray a k w"
  "wGetStateByteArray a k (wAddLog l w) = wGetStateByteArray a k w"
  "wGetStateByteArray a k (Transfer db b c n w) = wGetStateByteArray a k w"
  by (auto simp: Transfer_def wGetStateByteArray_def wAddBalance_def wSubBalance_def wAddLog_def wUpd_def wEnsure_def
      split: option.split)

lemma wGetStateByteArray_wCreateAccount:
  "w_acct w b = None \<Longrightarrow> wGetStateByteArray a k (wCreateAccount db b w) = wGetStateByteArray a k w"
  by (auto simp: wGetStateByteArray_def wCreateAccount_def split: option.split)

lemma settle_Err: "settle w0 out = (ret, g, Some (Err m), w') \<Longrightarrow> w' = w0"
  by (auto simp: settle_def split: prod.splits option.splits go_error.splits if_splits)

lemma settle_gas:
  assumes "settle w0 (ret0, err0, c, w1) = (ret, g, err, w')"
  shows "g \<le> con_Gas c"
  using assms by (auto simp: settle_def UseGas_def split: option.splits go_error.splits if_splits)

text \<open>A small world and machine to evaluate on: a few funded accounts, no precompiled contract, and an
  interpreter that runs nothing.\<close>

definition toy_world :: "(address \<Rightarrow> int option) \<Rightarrow> world" where
  "toy_world f =
     \<lparr>w_acct = (\<lambda>a. map_option (\<lambda>n. (zero_view toy_db)\<lparr>v_balance := n\<rparr>) (f a)), w_base = (\<lambda>_. None),
      w_refund = 0, w_logs = (\<lambda>_. []), w_logSize = 0, w_preimages = Map.empty, w_thash = 0, w_bhash = 0,
      w_txIndex = 0\<rparr>"

definition toy_ctx :: "int \<Rightarrow> vmctx" where
  "toy_ctx t =
     \<lparr>ctx_db = toy_db, ctx_Origin = 0, ctx_GasPrice = 0, ctx_Coinbase = 0, ctx_GasLimit = 0, ctx_BlockNumber = 1,
      ctx_Time = t, ctx_Difficulty = 0, ctx_GetHash = (\<lambda>_. 0), ctx_Empty = (\<lambda>a w. w_acct w a = None)\<rparr>"

definition toy_evm :: "vmctx \<Rightarrow> (address \<Rightarrow> precompiled option) \<Rightarrow> evm" where
  "toy_evm ctx pcs =
     \<lparr>ev_ctx = ctx, ev_precompiles = pcs, ev_depth = 0, ev_NoRecursion = False, ev_readOnly = False,
      ev_EnablePreimageRecording = False\<rparr>"

definition null_interp :: interp where
  "null_interp ev c input w = ([], None, c, w)"

section \<open>Properties\<close>



text \<open>C18. Value transfer conserves money: it moves the amount from the sender to the recipient, touches no other
  balance, keeps the sum over all accounts, and with \<^verbatim>\<open>CanTransfer\<close> no balance becomes negative.\<close>

theorem Transfer_conserves:
  assumes "CanTransfer w s n" and "0 \<le> n" and "\<forall>a. 0 \<le> wGetBalance a w"
  shows "(finite A \<and> s \<in> A \<and> r \<in> A \<longrightarrow>
      (\<Sum>a\<in>A. wGetBalance a (Transfer db s r n w)) = (\<Sum>a\<in>A. wGetBalance a w)) \<and>
    (\<forall>a. 0 \<le> wGetBalance a (Transfer db s r n w)) \<and>
    (s \<noteq> r \<longrightarrow> wGetBalance s (Transfer db s r n w) = wGetBalance s w - n \<and>
       wGetBalance r (Transfer db s r n w) = wGetBalance r w + n)"
proof (intro conjI impI allI)
  have t: "wGetBalance a (Transfer db s r n w) = wGetBalance a w + ((if a = r then n else 0) - (if a = s then n else 0))" for a
    using assms(2) by (auto simp: wGetBalance_Transfer)
  show "0 \<le> wGetBalance a (Transfer db s r n w)" for a
    using assms(1,2) spec [OF assms(3), of a] by (auto simp: t CanTransfer_def)
  show "(\<Sum>a\<in>A. wGetBalance a (Transfer db s r n w)) = (\<Sum>a\<in>A. wGetBalance a w)" if "finite A \<and> s \<in> A \<and> r \<in> A"
    using that by (simp add: t sum.distrib sum_subtractf)
  assume "s \<noteq> r"
  then show "wGetBalance s (Transfer db s r n w) = wGetBalance s w - n" "wGetBalance r (Transfer db s r n w) = wGetBalance r w + n"
    by (simp_all add: t)
qed

theorem Transfer_conserves_witness:
  "(\<Sum>a\<in>{1, 2, 3}. wGetBalance a (Transfer toy_db 1 2 4 (toy_world [1 \<mapsto> 10]))) =
   (\<Sum>a\<in>{1, 2, 3}. wGetBalance a (toy_world [1 \<mapsto> 10]))"
proof -
  have nn: "\<forall>a. 0 \<le> wGetBalance a (toy_world [1 \<mapsto> 10])" by (simp add: wGetBalance_def toy_world_def)
  have ct: "CanTransfer (toy_world [1 \<mapsto> 10]) 1 4" by (simp add: CanTransfer_def wGetBalance_def toy_world_def)
  show ?thesis by (rule mp [OF conjunct1 [OF Transfer_conserves [OF ct _ nn]]]) simp_all
qed

end
