(* ===== verification/Staking.thy ===== *)
theory Staking
  imports Vm_Call Abi Pos_Util
begin

text \<open>
  The staking contract (\<^verbatim>\<open>core/vm/pos_staking_contracts.go\<close>): the precompiled contract at address
  218 that keeps validators with their partners and delegators.  This theory holds its records, their RLP
  coding, all handlers, parameter checks and logs.

  What the handlers take from elsewhere is collected in \<open>cscEnv\<close>: the elliptic curve decoding of public
  keys, whether a bn256 point decodes, the epochs of the configuration, the clock.
\<close>

section \<open>Constants\<close>

definition ether :: int where "ether = 10 ^ 18"

definition PSMinEpochNum :: uint64 where "PSMinEpochNum = 7"
definition PSMaxEpochNum :: int where "PSMaxEpochNum = 90"
definition PSMaxFeeRate :: uint64 where "PSMaxFeeRate = 10000"
definition PSFeeRateStep :: uint64 where "PSFeeRateStep = 100"
definition MaxTimeDelegate :: int where "MaxTimeDelegate = 10"
definition UpdateDelay :: uint64 where "UpdateDelay = 3"
definition QuitDelay :: uint64 where "QuitDelay = 3"
definition JoinDelay :: uint64 where "JoinDelay = 2"
definition maxPartners :: nat where "maxPartners = 5"

definition maxEpochNum :: int where "maxEpochNum = 90"
definition minEpochNum :: int where "minEpochNum = 7"
definition minStakeholderStake :: int where "minStakeholderStake = 10000 * ether"
definition MinValidatorStake :: int where "MinValidatorStake = 50000 * ether"
definition minDelegatorStake :: int where "minDelegatorStake = 100 * ether"
definition maxTotalStake :: int where "maxTotalStake = 10500000 * ether"
definition minFeeRate :: int where "minFeeRate = 0"
definition maxFeeRate :: int where "maxFeeRate = 10000"
definition minPartnerIn :: int where "minPartnerIn = 10000 * ether"
definition noDelegateFeeRate :: int where "noDelegateFeeRate = 10000"
definition StakersInfoStakeOutKeyHash :: hash where "StakersInfoStakeOutKeyHash = 700"

lemmas csc_consts = ether_def PSMinEpochNum_def PSMaxEpochNum_def PSMaxFeeRate_def PSFeeRateStep_def
  MaxTimeDelegate_def UpdateDelay_def QuitDelay_def JoinDelay_def maxPartners_def maxEpochNum_def
  minEpochNum_def minStakeholderStake_def MinValidatorStake_def minDelegatorStake_def maxTotalStake_def
  minFeeRate_def maxFeeRate_def minPartnerIn_def noDelegateFeeRate_def

section \<open>Records\<close>

record StakeInParam =
  SecPk :: "bytes option"
  Bn256Pk :: "bytes option"
  sip_LockEpochs :: int
  sip_FeeRate :: int
  sip_pub :: "(int \<times> int) option"

record StakeRegisterParam =
  srp_StakeInParam :: StakeInParam
  srp_MaxFeeRate :: int

record StakeUpdateParam =
  sup_Addr :: address
  sup_LockEpochs :: int

record PartnerInParam =
  pip_Addr :: address
  pip_Renewal :: bool

record UpdateFeeRateParam =
  ufp_Addr :: address
  ufp_FeeRate :: int

record ClientInfo =
  ci_Address :: address
  ci_Amount :: int
  ci_StakeAmount :: int
  ci_QuitEpoch :: uint64

record PartnerInfo =
  pi_Address :: address
  pi_Amount :: int
  pi_StakeAmount :: int
  pi_Renewal :: bool
  pi_LockEpochs :: uint64
  pi_StakingEpoch :: uint64

record StakerInfo =
  si_Address :: address
  si_PubSec256 :: bytes
  si_PubBn256 :: bytes
  si_Amount :: int
  si_StakeAmount :: int
  si_LockEpochs :: uint64
  si_NextLockEpochs :: uint64
  si_From :: address
  si_StakingEpoch :: uint64
  si_FeeRate :: uint64
  si_Clients :: "ClientInfo list"
  si_Partners :: "PartnerInfo list"

record UpdateFeeRate =
  uf_ValidatorAddr :: address
  uf_MaxFeeRate :: uint64
  uf_FeeRate :: uint64
  uf_ChangedEpoch :: uint64

record cscEnv =
  elliptic_Unmarshal :: "bytes \<Rightarrow> (int \<times> int) option"
  bn256_Unmarshal_ok :: "bytes \<Rightarrow> bool"
  FirstEpochId :: uint64
  VenusEpochId :: uint64
  IsNoStaking :: bool
  NowUnix :: uint64

section \<open>RLP coding of the records\<close>

definition client_val :: "ClientInfo \<Rightarrow> rlp_val" where
  "client_val c =
     RList [RBytes (address_bytes (ci_Address c)), RBig (Some (ci_Amount c)), RBig (Some (ci_StakeAmount c)),
            RUint (ci_QuitEpoch c)]"

definition partner_val :: "PartnerInfo \<Rightarrow> rlp_val" where
  "partner_val p =
     RList [RBytes (address_bytes (pi_Address p)), RBig (Some (pi_Amount p)), RBig (Some (pi_StakeAmount p)),
            RBool (pi_Renewal p), RUint (pi_LockEpochs p), RUint (pi_StakingEpoch p)]"

definition staker_val :: "StakerInfo \<Rightarrow> rlp_val" where
  "staker_val s =
     RList [RBytes (address_bytes (si_Address s)), RBytes (si_PubSec256 s), RBytes (si_PubBn256 s),
            RBig (Some (si_Amount s)), RBig (Some (si_StakeAmount s)), RUint (si_LockEpochs s),
            RUint (si_NextLockEpochs s), RBytes (address_bytes (si_From s)), RUint (si_StakingEpoch s),
            RUint (si_FeeRate s), RList (map client_val (si_Clients s)), RList (map partner_val (si_Partners s))]"

definition feeRate_val :: "UpdateFeeRate \<Rightarrow> rlp_val" where
  "feeRate_val u =
     RList [RBytes (address_bytes (uf_ValidatorAddr u)), RUint (uf_MaxFeeRate u), RUint (uf_FeeRate u),
            RUint (uf_ChangedEpoch u)]"

definition decodeAddress :: "address sop" where
  "decodeAddress = sbind (decodeByteArray 20 ''common.Address'') (\<lambda>b. sret (BytesToAddress b))"

definition decodeClientInfo :: "ClientInfo sop" where
  "decodeClientInfo = structDecoder ''vm.ClientInfo''
     (sbind (struct_field ''vm.ClientInfo'' decodeAddress) (\<lambda>a.
      sbind (struct_field ''vm.ClientInfo'' decodeBigInt) (\<lambda>m.
      sbind (struct_field ''vm.ClientInfo'' decodeBigInt) (\<lambda>sm.
      sbind (struct_field ''vm.ClientInfo'' decodeUint) (\<lambda>q.
        sret \<lparr>ci_Address = a, ci_Amount = m, ci_StakeAmount = sm, ci_QuitEpoch = q\<rparr>)))))"

definition decodePartnerInfo :: "PartnerInfo sop" where
  "decodePartnerInfo = structDecoder ''vm.PartnerInfo''
     (sbind (struct_field ''vm.PartnerInfo'' decodeAddress) (\<lambda>a.
      sbind (struct_field ''vm.PartnerInfo'' decodeBigInt) (\<lambda>m.
      sbind (struct_field ''vm.PartnerInfo'' decodeBigInt) (\<lambda>sm.
      sbind (struct_field ''vm.PartnerInfo'' decodeBool) (\<lambda>r.
      sbind (struct_field ''vm.PartnerInfo'' decodeUint) (\<lambda>l.
      sbind (struct_field ''vm.PartnerInfo'' decodeUint) (\<lambda>e.
        sret \<lparr>pi_Address = a, pi_Amount = m, pi_StakeAmount = sm, pi_Renewal = r, pi_LockEpochs = l,
              pi_StakingEpoch = e\<rparr>)))))))"

definition decodeStakerInfo :: "StakerInfo sop" where
  "decodeStakerInfo = structDecoder ''vm.StakerInfo''
     (sbind (struct_field ''vm.StakerInfo'' decodeAddress) (\<lambda>a.
      sbind (struct_field ''vm.StakerInfo'' decodeByteSlice) (\<lambda>ps.
      sbind (struct_field ''vm.StakerInfo'' decodeByteSlice) (\<lambda>pb.
      sbind (struct_field ''vm.StakerInfo'' decodeBigInt) (\<lambda>m.
      sbind (struct_field ''vm.StakerInfo'' decodeBigInt) (\<lambda>sm.
      sbind (struct_field ''vm.StakerInfo'' decodeUint) (\<lambda>l.
      sbind (struct_field ''vm.StakerInfo'' decodeUint) (\<lambda>nl.
      sbind (struct_field ''vm.StakerInfo'' decodeAddress) (\<lambda>f.
      sbind (struct_field ''vm.StakerInfo'' decodeUint) (\<lambda>e.
      sbind (struct_field ''vm.StakerInfo'' decodeUint) (\<lambda>fr.
      sbind (struct_field ''vm.StakerInfo'' (decodeListSlice ''[]vm.ClientInfo'' decodeClientInfo)) (\<lambda>cs.
      sbind (struct_field ''vm.StakerInfo'' (decodeListSlice ''[]vm.PartnerInfo'' decodePartnerInfo)) (\<lambda>prs.
        sret \<lparr>si_Address = a, si_PubSec256 = ps, si_PubBn256 = pb, si_Amount = m, si_StakeAmount = sm,
              si_LockEpochs = l, si_NextLockEpochs = nl, si_From = f, si_StakingEpoch = e, si_FeeRate = fr,
              si_Clients = cs, si_Partners = prs\<rparr>)))))))))))))"

definition decodeUpdateFeeRate :: "UpdateFeeRate sop" where
  "decodeUpdateFeeRate = structDecoder ''vm.UpdateFeeRate''
     (sbind (struct_field ''vm.UpdateFeeRate'' decodeAddress) (\<lambda>a.
      sbind (struct_field ''vm.UpdateFeeRate'' decodeUint) (\<lambda>mx.
      sbind (struct_field ''vm.UpdateFeeRate'' decodeUint) (\<lambda>f.
      sbind (struct_field ''vm.UpdateFeeRate'' decodeUint) (\<lambda>e.
        sret \<lparr>uf_ValidatorAddr = a, uf_MaxFeeRate = mx, uf_FeeRate = f, uf_ChangedEpoch = e\<rparr>)))))"

section \<open>Keys, addresses and identifiers\<close>

definition GetStakeInKeyHash :: "address \<Rightarrow> hash" where
  "GetStakeInKeyHash a = BytesToHash (address_bytes a)"

definition ToECDSAPub :: "cscEnv \<Rightarrow> bytes \<Rightarrow> (int \<times> int) option" where
  "ToECDSAPub env pub = (if length pub \<noteq> 65 then None else elliptic_Unmarshal env pub)"

text \<open>\<^verbatim>\<open>elliptic.Marshal\<close> writes the uncompressed form: 4 and the two coordinates.\<close>

definition FromECDSAPub :: "int \<times> int \<Rightarrow> bytes" where
  "FromECDSAPub pub = 4 # be_fixed 32 (nat (fst pub)) @ be_fixed 32 (nat (snd pub))"

definition PubkeyToAddress :: "database \<Rightarrow> int \<times> int \<Rightarrow> address" where
  "PubkeyToAddress db p = ucast (Keccak256 db (tl (FromECDSAPub p)))"

definition go_bytes :: "string \<Rightarrow> bytes" where
  "go_bytes s = map of_char s"

text \<open>\<^verbatim>\<open>Method.Id\<close> and \<^verbatim>\<open>Event.Id\<close> of a signature.\<close>

definition method_id :: "database \<Rightarrow> string \<Rightarrow> bytes" where
  "method_id db sig = take 4 (hash_bytes (Keccak256 db (go_bytes sig)))"

definition event_id :: "database \<Rightarrow> string \<Rightarrow> hash" where
  "event_id db sig = Keccak256 db (go_bytes sig)"

definition stakeRegister_sig :: string where "stakeRegister_sig = ''stakeRegister(bytes,bytes,uint256,uint256,uint256)''"
definition stakeIn_sig :: string where "stakeIn_sig = ''stakeIn(bytes,bytes,uint256,uint256)''"
definition stakeAppend_sig :: string where "stakeAppend_sig = ''stakeAppend(address)''"
definition stakeUpdate_sig :: string where "stakeUpdate_sig = ''stakeUpdate(address,uint256)''"
definition partnerIn_sig :: string where "partnerIn_sig = ''partnerIn(address,bool)''"
definition delegateIn_sig :: string where "delegateIn_sig = ''delegateIn(address)''"
definition delegateOut_sig :: string where "delegateOut_sig = ''delegateOut(address)''"
definition stakeUpdateFeeRate_sig :: string where "stakeUpdateFeeRate_sig = ''stakeUpdateFeeRate(address,uint256)''"

lemmas csc_sigs = stakeRegister_sig_def stakeIn_sig_def stakeAppend_sig_def stakeUpdate_sig_def partnerIn_sig_def
  delegateIn_sig_def delegateOut_sig_def stakeUpdateFeeRate_sig_def

text \<open>The weight of a lock time.\<close>

definition CalLocktimeWeight :: "uint64 \<Rightarrow> uint64" where
  "CalLocktimeWeight lockEpoch = (if lockEpoch = 0 then 960 + PSMinEpochNum * 6 else 960 + lockEpoch * 6)"

text \<open>\<^verbatim>\<open>eidNow, _ := util.CalEpochSlotID(evm.Time.Uint64())\<close>\<close>

definition epoch_now :: "vmctx \<Rightarrow> uint64" where
  "epoch_now ctx = fst (CalEpochSlotID (big_Uint64 (ctx_Time ctx)))"

section \<open>Storage\<close>

definition saveStakeInfo :: "database \<Rightarrow> StakerInfo \<Rightarrow> unit wop" where
  "saveStakeInfo db stakerInfo =
     wbind (wlift (EncodeToBytes (staker_val stakerInfo))) (\<lambda>infoBytes.
       StoreInfo db StakersInfoAddr (GetStakeInKeyHash (si_Address stakerInfo)) infoBytes)"

text \<open>\<^verbatim>\<open>getStakeInfo\<close> looks at the bytes before the error of \<^verbatim>\<open>GetInfo\<close>.\<close>

definition getStakeInfo :: "address \<Rightarrow> StakerInfo wop" where
  "getStakeInfo addr w =
     (let stakerBytes = (case GetInfo StakersInfoAddr (GetStakeInKeyHash addr) w of (Inl _, _) \<Rightarrow> [] | (Inr b, _) \<Rightarrow> b)
      in if stakerBytes = [] then (Inl (Err ''item doesn't exist''), w)
         else case DecodeBytes decodeStakerInfo stakerBytes of
                Inl _ \<Rightarrow> (Inl (Err ''parse staker info error''), w)
              | Inr stakerInfo \<Rightarrow> (Inr stakerInfo, w))"

definition getStakeFeeRate :: "address \<Rightarrow> UpdateFeeRate option wop" where
  "getStakeFeeRate addr =
     wbind (GetInfo StakersFeeAddr (GetStakeInKeyHash addr)) (\<lambda>feeBytes.
       if feeBytes = [] then wret None
       else wbind (wlift (DecodeBytes decodeUpdateFeeRate feeBytes)) (\<lambda>feeRate. wret (Some feeRate)))"

definition saveStakeFeeRate :: "database \<Rightarrow> UpdateFeeRate \<Rightarrow> address \<Rightarrow> unit wop" where
  "saveStakeFeeRate db feeRate addr =
     wbind (wlift (EncodeToBytes (feeRate_val feeRate))) (\<lambda>feeBytes.
       StoreInfo db StakersFeeAddr (GetStakeInKeyHash addr) feeBytes)"

text \<open>\<^verbatim>\<open>GetStakersSnap\<close> over the stored values in the order of the iteration.\<close>

fun GetStakersSnap :: "bytes list \<Rightarrow> StakerInfo list" where
  "GetStakersSnap [] = []"
| "GetStakersSnap (b # bs) =
     (case DecodeBytes decodeStakerInfo b of
        Inl _ \<Rightarrow> GetStakersSnap bs | Inr s \<Rightarrow> s # GetStakersSnap bs)"

definition StakeoutSetEpoch :: "database \<Rightarrow> uint64 \<Rightarrow> unit wop" where
  "StakeoutSetEpoch db epochID =
     StoreInfo db StakingCommonAddr StakersInfoStakeOutKeyHash (big_Bytes (sint epochID))"

definition StakeoutIsFinished :: "uint64 \<Rightarrow> bool wop" where
  "StakeoutIsFinished epochID w =
     (case GetInfo StakingCommonAddr StakersInfoStakeOutKeyHash w of
        (Inl _, w1) \<Rightarrow> (Inr False, w1)
      | (Inr epochByte, w1) \<Rightarrow> (Inr (epochID \<le> big_Uint64 (big_SetBytes epochByte)), w1))"

section \<open>Parameters\<close>

definition unpack_error :: go_error where
  "unpack_error = Err ''abi: cannot unmarshal''"

definition doStakeInParseAndValid :: "cscEnv \<Rightarrow> StakeInParam \<Rightarrow> StakeInParam result" where
  "doStakeInParseAndValid env info =
     (case SecPk info of
        None \<Rightarrow> Inl (Err ''wrong secPk for stakeIn'')
      | Some secPk \<Rightarrow>
          (case ToECDSAPub env secPk of
             None \<Rightarrow> Inl (Err ''secPk is invalid'')
           | Some pub \<Rightarrow>
               (case Bn256Pk info of
                  None \<Rightarrow> Inl (Err ''wrong bn256Pk for stakeIn'')
                | Some bn \<Rightarrow>
                    if \<not> bn256_Unmarshal_ok env bn then Inl (Err ''wrong point for bn256Pk'')
                    else if sip_LockEpochs info < minEpochNum \<or> maxEpochNum < sip_LockEpochs info
                    then Inl (Err ''invalid lock time'')
                    else if maxFeeRate < sip_FeeRate info \<or> sip_FeeRate info < minFeeRate
                    then Inl (Err ''fee rate should between 0 to 100'')
                    else Inr (info\<lparr>sip_pub := Some pub\<rparr>))))"

definition stakeRegisterParseAndValid :: "cscEnv \<Rightarrow> bytes \<Rightarrow> StakeRegisterParam result" where
  "stakeRegisterParseAndValid env payload =
     (case UnpackInput [BytesTy, BytesTy, UintTy 256, UintTy 256, UintTy 256] payload of
        Inl e \<Rightarrow> Inl e
      | Inr [VBytes secPk, VBytes bn, VInt _ lock, VInt _ fee, VInt _ maxFee] \<Rightarrow>
          if maxFeeRate < maxFee \<or> maxFee < minFeeRate then Inl (Err ''max fee rate should between 0 to 100'')
          else if maxFee < fee then Inl (Err ''fee rate should le maxFeeRate'')
          else if maxFee = maxFeeRate \<and> fee \<noteq> maxFee
          then Inl (Err ''feeRate should be same with maxFeeRate, if maxFeeRate eq 100'')
          else (case doStakeInParseAndValid env
                       \<lparr>SecPk = Some secPk, Bn256Pk = Some bn, sip_LockEpochs = lock, sip_FeeRate = fee, sip_pub = None\<rparr> of
                  Inl e \<Rightarrow> Inl e
                | Inr info \<Rightarrow> Inr \<lparr>srp_StakeInParam = info, srp_MaxFeeRate = maxFee\<rparr>)
      | Inr _ \<Rightarrow> Inl unpack_error)"

definition stakeInParseAndValid :: "cscEnv \<Rightarrow> bytes \<Rightarrow> StakeInParam result" where
  "stakeInParseAndValid env payload =
     (case UnpackInput [BytesTy, BytesTy, UintTy 256, UintTy 256] payload of
        Inl e \<Rightarrow> Inl e
      | Inr [VBytes secPk, VBytes bn, VInt _ lock, VInt _ fee] \<Rightarrow>
          doStakeInParseAndValid env
            \<lparr>SecPk = Some secPk, Bn256Pk = Some bn, sip_LockEpochs = lock, sip_FeeRate = fee, sip_pub = None\<rparr>
      | Inr _ \<Rightarrow> Inl unpack_error)"

definition partnerInParseAndValid :: "bytes \<Rightarrow> PartnerInParam result" where
  "partnerInParseAndValid payload =
     (case UnpackInput [AddressTy, BoolTy] payload of
        Inl e \<Rightarrow> Inl e
      | Inr [VAddress a, VBool r] \<Rightarrow> Inr \<lparr>pip_Addr = a, pip_Renewal = r\<rparr>
      | Inr _ \<Rightarrow> Inl unpack_error)"

definition stakeUpdateParseAndValid :: "bytes \<Rightarrow> StakeUpdateParam result" where
  "stakeUpdateParseAndValid payload =
     (case UnpackInput [AddressTy, UintTy 256] payload of
        Inl e \<Rightarrow> Inl e
      | Inr [VAddress a, VInt _ lock] \<Rightarrow>
          if big_Uint64 lock \<noteq> 0 \<and> (lock < minEpochNum \<or> maxEpochNum < lock)
          then Inl (Err ''invalid lock time'')
          else Inr \<lparr>sup_Addr = a, sup_LockEpochs = lock\<rparr>
      | Inr _ \<Rightarrow> Inl unpack_error)"

text \<open>\<^verbatim>\<open>UnpackInput\<close> of one address.\<close>

definition unpack_address :: "bytes \<Rightarrow> address result" where
  "unpack_address payload =
     (case UnpackInput [AddressTy] payload of
        Inl e \<Rightarrow> Inl e | Inr [VAddress a] \<Rightarrow> Inr a | Inr _ \<Rightarrow> Inl unpack_error)"

definition stakeAppendParseAndValid :: "bytes \<Rightarrow> address result" where
  "stakeAppendParseAndValid payload = unpack_address payload"

definition delegateInParseAndValid :: "bytes \<Rightarrow> address result" where
  "delegateInParseAndValid payload = unpack_address payload"

definition delegateOutParseAndValid :: "bytes \<Rightarrow> address result" where
  "delegateOutParseAndValid payload = unpack_address payload"

definition updateFeeRateParseAndValid :: "bytes \<Rightarrow> UpdateFeeRateParam result" where
  "updateFeeRateParseAndValid payload =
     (case UnpackInput [AddressTy, UintTy 256] payload of
        Inl e \<Rightarrow> Inl e
      | Inr [VAddress a, VInt _ fee] \<Rightarrow>
          if maxFeeRate < fee \<or> fee < minFeeRate then Inl (Err ''fee rate should between 0 to 10000'')
          else Inr \<lparr>ufp_Addr = a, ufp_FeeRate = fee\<rparr>
      | Inr _ \<Rightarrow> Inl unpack_error)"

section \<open>Logs\<close>

definition addr_hash :: "address \<Rightarrow> hash" where
  "addr_hash a = BytesToHash (address_bytes a)"

definition uint_hash :: "uint64 \<Rightarrow> hash" where
  "uint_hash x = BigToHash (big_of_uint64 x)"

definition stakeRegisterLog :: "contract \<Rightarrow> vmctx \<Rightarrow> StakerInfo \<Rightarrow> uint64 \<Rightarrow> unit wop" where
  "stakeRegisterLog c ctx info maxFee =
     precompiledScAddLog ctx (con_self c)
       (event_id (ctx_db ctx) ''stakeRegister(address,address,uint256,uint256,uint256,uint256)'')
       [addr_hash (CallerAddress c), addr_hash (si_Address info), BigToHash (con_value c)]
       (hash_bytes (uint_hash (si_FeeRate info)) @ hash_bytes (uint_hash (si_LockEpochs info)) @
        hash_bytes (uint_hash maxFee))"

definition stakeInLog :: "contract \<Rightarrow> vmctx \<Rightarrow> StakerInfo \<Rightarrow> unit wop" where
  "stakeInLog c ctx info =
     (if epoch_now ctx < ApolloEpochID
      then precompiledScAddLog ctx (con_self c) (Keccak256 (ctx_db ctx) (go_bytes stakeIn_sig))
             [addr_hash (CallerAddress c), BigToHash (con_value c), uint_hash (si_FeeRate info),
              uint_hash (si_LockEpochs info), addr_hash (si_Address info)] []
      else precompiledScAddLog ctx (con_self c)
             (event_id (ctx_db ctx) ''stakeIn(address,address,uint256,uint256,uint256)'')
             [addr_hash (CallerAddress c), addr_hash (si_Address info), BigToHash (con_value c)]
             (hash_bytes (uint_hash (si_FeeRate info)) @ hash_bytes (uint_hash (si_LockEpochs info))))"

definition stakeAppendLog :: "contract \<Rightarrow> vmctx \<Rightarrow> address \<Rightarrow> unit wop" where
  "stakeAppendLog c ctx validator =
     (if epoch_now ctx < ApolloEpochID
      then precompiledScAddLog ctx (con_self c) (Keccak256 (ctx_db ctx) (go_bytes stakeAppend_sig))
             [addr_hash (CallerAddress c), BigToHash (con_value c), addr_hash validator] []
      else precompiledScAddLog ctx (con_self c) (event_id (ctx_db ctx) ''stakeAppend(address,address,uint256)'')
             [addr_hash (CallerAddress c), addr_hash validator, BigToHash (con_value c)] [])"

definition stakeUpdateLog :: "contract \<Rightarrow> vmctx \<Rightarrow> StakerInfo \<Rightarrow> unit wop" where
  "stakeUpdateLog c ctx info =
     (if epoch_now ctx < ApolloEpochID
      then precompiledScAddLog ctx (con_self c) (Keccak256 (ctx_db ctx) (go_bytes stakeUpdate_sig))
             [addr_hash (CallerAddress c), uint_hash (si_NextLockEpochs info), addr_hash (si_Address info)] []
      else precompiledScAddLog ctx (con_self c) (event_id (ctx_db ctx) ''stakeUpdate(address,address,uint256)'')
             [addr_hash (CallerAddress c), addr_hash (si_Address info), uint_hash (si_NextLockEpochs info)] [])"

definition delegateInLog :: "contract \<Rightarrow> vmctx \<Rightarrow> address \<Rightarrow> unit wop" where
  "delegateInLog c ctx validator =
     (if epoch_now ctx < ApolloEpochID
      then precompiledScAddLog ctx (con_self c) (Keccak256 (ctx_db ctx) (go_bytes delegateIn_sig))
             [addr_hash (CallerAddress c), BigToHash (con_value c), addr_hash validator] []
      else precompiledScAddLog ctx (con_self c) (event_id (ctx_db ctx) ''delegateIn(address,address,uint256)'')
             [addr_hash (CallerAddress c), addr_hash validator, BigToHash (con_value c)] [])"

definition delegateOutLog :: "contract \<Rightarrow> vmctx \<Rightarrow> address \<Rightarrow> unit wop" where
  "delegateOutLog c ctx validator =
     (if epoch_now ctx < ApolloEpochID
      then precompiledScAddLog ctx (con_self c) (Keccak256 (ctx_db ctx) (go_bytes delegateOut_sig))
             [addr_hash (CallerAddress c), addr_hash validator] []
      else precompiledScAddLog ctx (con_self c) (event_id (ctx_db ctx) ''delegateOut(address,address)'')
             [addr_hash (CallerAddress c), addr_hash validator] [])"

definition stakeUpdateFeeRateLog :: "contract \<Rightarrow> vmctx \<Rightarrow> UpdateFeeRate \<Rightarrow> unit wop" where
  "stakeUpdateFeeRateLog c ctx feeInfo =
     (if ApolloEpochID \<le> epoch_now ctx
      then precompiledScAddLog ctx (con_self c) (event_id (ctx_db ctx) ''stakeUpdateFeeRate(address,address,uint256)'')
             [addr_hash (CallerAddress c), addr_hash (uf_ValidatorAddr feeInfo), uint_hash (uf_FeeRate feeInfo)] []
      else wret ())"

definition partnerInLog :: "contract \<Rightarrow> vmctx \<Rightarrow> address \<Rightarrow> bool \<Rightarrow> unit wop" where
  "partnerInLog c ctx addr renew =
     (if ApolloEpochID \<le> epoch_now ctx
      then precompiledScAddLog ctx (con_self c) (event_id (ctx_db ctx) ''partnerIn(address,address,uint256,bool)'')
             [addr_hash (CallerAddress c), addr_hash addr, BigToHash (con_value c)]
             (hash_bytes (uint_hash (if renew then 1 else 0)))
      else wret ())"

section \<open>Handlers\<close>

definition StakeUpdate :: "bytes \<Rightarrow> contract \<Rightarrow> vmctx \<Rightarrow> bytes wop" where
  "StakeUpdate payload c ctx =
     wbind (wlift (stakeUpdateParseAndValid payload)) (\<lambda>info.
     wbind (getStakeInfo (sup_Addr info)) (\<lambda>stakerInfo.
     wthen (wcheck (CallerAddress c \<noteq> si_From stakerInfo) ''Cannot update from another account'') (
     wthen (wcheck (si_StakingEpoch stakerInfo + si_LockEpochs stakerInfo - UpdateDelay < epoch_now ctx)
              ''cannot change at the last 3 epoch.'') (
     let stakerInfo1 = stakerInfo\<lparr>si_NextLockEpochs := big_Uint64 (sup_LockEpochs info)\<rparr> in
     wthen (saveStakeInfo (ctx_db ctx) stakerInfo1) (
     wthen (stakeUpdateLog c ctx stakerInfo1) (wret []))))))"

text \<open>\<^verbatim>\<open>realLockEpoch\<close> of \<^verbatim>\<open>PartnerIn\<close> and \<^verbatim>\<open>StakeAppend\<close>.\<close>

definition realLockEpoch :: "vmctx \<Rightarrow> StakerInfo \<Rightarrow> int" where
  "realLockEpoch ctx stakerInfo =
     (if si_StakingEpoch stakerInfo = 0 then sint (si_LockEpochs stakerInfo)
      else sint (si_LockEpochs stakerInfo - (epoch_now ctx + JoinDelay - si_StakingEpoch stakerInfo)))"

text \<open>The loop of \<^verbatim>\<open>PartnerIn\<close> over the partners: the running total, whether the caller was found,
  and the updated partners.\<close>

fun partner_loop :: "address \<Rightarrow> int \<Rightarrow> uint64 \<Rightarrow> bool \<Rightarrow> int \<Rightarrow> PartnerInfo list \<Rightarrow> int \<times> bool \<times> PartnerInfo list" where
  "partner_loop caller v weight renewal totalStake [] = (totalStake, False, [])"
| "partner_loop caller v weight renewal totalStake (p # ps) =
     (let (total1, found, ps1) = partner_loop caller v weight renewal (totalStake + pi_Amount p) ps
      in if pi_Address p = caller
         then (total1, True,
               p\<lparr>pi_Amount := pi_Amount p + v, pi_StakeAmount := pi_StakeAmount p + v * sint weight,
                 pi_Renewal := renewal\<rparr> # ps1)
         else (total1, found, p # ps1))"

text \<open>\<^verbatim>\<open>PartnerIn\<close> between reading and saving the record: the checks and the new record.\<close>

definition addPartner :: "cscEnv \<Rightarrow> contract \<Rightarrow> vmctx \<Rightarrow> bool \<Rightarrow> StakerInfo \<Rightarrow> StakerInfo result" where
  "addPartner env c ctx renewal stakerInfo =
     (let eidNow = epoch_now ctx; rle = realLockEpoch ctx stakerInfo in
      if ApolloEpochID \<le> eidNow \<and> eidNow < AugustEpochID \<and> con_value c < minPartnerIn
      then Inl (Err ''min wan amount should >= 10000'')
      else if rle < 0 \<or> PSMaxEpochNum < rle then Inl (Err ''Wrong lock Epochs'')
      else
        let weight = CalLocktimeWeight (word_of_int rle);
            total0 = si_Amount stakerInfo + sum_list (map ci_Amount (si_Clients stakerInfo)) + con_value c;
            (totalStake, found, partners1) =
              partner_loop (CallerAddress c) (con_value c) weight renewal total0 (si_Partners stakerInfo)
        in
        if maxTotalStake < totalStake then Inl (Err ''partner in failed, too much stake'')
        else if found then Inr (stakerInfo\<lparr>si_Partners := partners1\<rparr>)
        else if maxPartners \<le> length (si_Partners stakerInfo) then Inl (Err ''Too many partners'')
        else if ApolloEpochID \<le> eidNow \<and> con_value c < minPartnerIn
        then Inl (Err ''min wan amount should >= 10000'')
        else Inr (stakerInfo\<lparr>si_Partners := partners1 @
              [\<lparr>pi_Address = CallerAddress c, pi_Amount = con_value c, pi_StakeAmount = con_value c * sint weight,
                pi_Renewal = renewal, pi_LockEpochs = word_of_int rle,
                pi_StakingEpoch = (if FirstEpochId env = 0 then 0 else eidNow + JoinDelay)\<rparr>]\<rparr>))"

definition PartnerIn :: "cscEnv \<Rightarrow> bytes \<Rightarrow> contract \<Rightarrow> vmctx \<Rightarrow> bytes wop" where
  "PartnerIn env payload c ctx =
     wbind (wlift (partnerInParseAndValid payload)) (\<lambda>info.
     wbind (getStakeInfo (pip_Addr info)) (\<lambda>stakerInfo.
     wbind (wlift (addPartner env c ctx (pip_Renewal info) stakerInfo)) (\<lambda>stakerInfo1.
     wthen (saveStakeInfo (ctx_db ctx) stakerInfo1) (
     wthen (partnerInLog c ctx (pip_Addr info) (pip_Renewal info)) (wret [])))))"

definition StakeAppend :: "cscEnv \<Rightarrow> bytes \<Rightarrow> contract \<Rightarrow> vmctx \<Rightarrow> bytes wop" where
  "StakeAppend env payload c ctx =
     wbind (wlift (stakeAppendParseAndValid payload)) (\<lambda>addr.
     wbind (getStakeInfo addr) (\<lambda>stakerInfo.
     wthen (wcheck (CallerAddress c \<noteq> si_From stakerInfo) ''Cannot append from another account'') (
     let amount1 = si_Amount stakerInfo + con_value c;
         rle = realLockEpoch ctx stakerInfo
     in
     wthen (wcheck (rle < 0 \<or> PSMaxEpochNum < rle) ''Wrong lock Epochs'') (
     let totalStake = amount1 + sum_list (map ci_Amount (si_Clients stakerInfo)) + sum_list (map pi_Amount (si_Partners stakerInfo))
     in
     wthen (wcheck (maxTotalStake < totalStake) ''StakeAppend in failed, too much stake'') (
     let weight = CalLocktimeWeight (word_of_int rle);
         stakerInfo1 = stakerInfo\<lparr>si_Amount := amount1,
           si_StakeAmount := (if epoch_now ctx < VenusEpochId env then amount1 * sint weight
                              else si_StakeAmount stakerInfo + con_value c * sint weight)\<rparr>
     in
     wthen (saveStakeInfo (ctx_db ctx) stakerInfo1) (
     wthen (stakeAppendLog c ctx (si_Address stakerInfo1)) (wret [])))))))"

definition doStakeIn :: "cscEnv \<Rightarrow> contract \<Rightarrow> vmctx \<Rightarrow> StakeInParam \<Rightarrow> StakerInfo wop" where
  "doStakeIn env c ctx info =
     wthen (wcheck (con_value c < minStakeholderStake) ''need more Wan to be a stake holder'') (
     wthen (wcheck (maxTotalStake < con_value c) ''max stake is 10,500,000'') (
     case sip_pub info of
       None \<Rightarrow> wfail (Panic ''nil pointer dereference'')
     | Some pub \<Rightarrow>
     let secAddr = PubkeyToAddress (ctx_db ctx) pub in
     wbind (\<lambda>w. (Inr (case GetInfo StakersInfoAddr (GetStakeInKeyHash secAddr) w of (Inl _, _) \<Rightarrow> [] | (Inr b, _) \<Rightarrow> b), w)) (\<lambda>oldInfo.
     wthen (wcheck (oldInfo \<noteq> []) ''public Sec address has exist'') (
     let lock = big_Uint64 (sip_LockEpochs info);
         weight = CalLocktimeWeight lock;
         stakerInfo =
           \<lparr>si_Address = secAddr, si_PubSec256 = (case SecPk info of None \<Rightarrow> [] | Some b \<Rightarrow> b),
            si_PubBn256 = (case Bn256Pk info of None \<Rightarrow> [] | Some b \<Rightarrow> b), si_Amount = con_value c,
            si_StakeAmount = con_value c * sint weight, si_LockEpochs = lock, si_NextLockEpochs = lock,
            si_From = CallerAddress c,
            si_StakingEpoch = (if FirstEpochId env = 0 then 0 else epoch_now ctx + JoinDelay),
            si_FeeRate = big_Uint64 (sip_FeeRate info), si_Clients = [], si_Partners = []\<rparr>
     in
     wthen (saveStakeInfo (ctx_db ctx) stakerInfo) (wret stakerInfo)))))"

definition StakeRegister :: "cscEnv \<Rightarrow> bytes \<Rightarrow> contract \<Rightarrow> vmctx \<Rightarrow> bytes wop" where
  "StakeRegister env payload c ctx =
     wbind (wlift (stakeRegisterParseAndValid env payload)) (\<lambda>info.
     wbind (doStakeIn env c ctx (srp_StakeInParam info)) (\<lambda>stakerInfo.
     let maxFee = big_Uint64 (srp_MaxFeeRate info);
         feeUpdate = \<lparr>uf_ValidatorAddr = si_Address stakerInfo, uf_MaxFeeRate = maxFee,
                      uf_FeeRate = si_FeeRate stakerInfo, uf_ChangedEpoch = 0\<rparr>
     in
     wthen (saveStakeFeeRate (ctx_db ctx) feeUpdate (si_Address stakerInfo)) (
     wthen (stakeRegisterLog c ctx stakerInfo maxFee) (wret []))))"

definition StakeIn :: "cscEnv \<Rightarrow> bytes \<Rightarrow> contract \<Rightarrow> vmctx \<Rightarrow> bytes wop" where
  "StakeIn env payload c ctx =
     wbind (wlift (stakeInParseAndValid env payload)) (\<lambda>info.
     wbind (doStakeIn env c ctx info) (\<lambda>stakerInfo.
     wthen (stakeInLog c ctx stakerInfo) (wret [])))"

text \<open>The loop of \<^verbatim>\<open>DelegateIn\<close> over the clients.\<close>

fun delegate_loop :: "address \<Rightarrow> int \<Rightarrow> int \<Rightarrow> ClientInfo list \<Rightarrow> (int \<times> bool \<times> ClientInfo list) result" where
  "delegate_loop caller v totalDelegated [] = Inr (totalDelegated, False, [])"
| "delegate_loop caller v totalDelegated (ci # cs) =
     (if ci_Address ci = caller \<and> ci_QuitEpoch ci \<noteq> 0 then Inl (Err ''dalegater is quiting.'')
      else case delegate_loop caller v (totalDelegated + ci_Amount ci) cs of
             Inl e \<Rightarrow> Inl e
           | Inr (t, found, cs1) \<Rightarrow>
               if ci_Address ci = caller
               then Inr (t, True,
                      ci\<lparr>ci_Amount := ci_Amount ci + v,
                         ci_StakeAmount := ci_StakeAmount ci + v * sint (CalLocktimeWeight PSMinEpochNum)\<rparr> # cs1)
               else Inr (t, found, ci # cs1))"

definition DelegateIn :: "bytes \<Rightarrow> contract \<Rightarrow> vmctx \<Rightarrow> bytes wop" where
  "DelegateIn payload c ctx =
     wbind (wlift (delegateInParseAndValid payload)) (\<lambda>addr.
     wbind (getStakeInfo addr) (\<lambda>stakerInfo.
     wthen (wcheck (si_FeeRate stakerInfo = big_Uint64 noDelegateFeeRate) ''Validator don't accept delegation.'') (
     let totalStake = si_Amount stakerInfo + sum_list (map pi_Amount (si_Partners stakerInfo)) in
     wthen (wcheck (totalStake < MinValidatorStake) ''Validator don't have enough amount.'') (
     wbind (wlift (delegate_loop (CallerAddress c) (con_value c) (con_value c) (si_Clients stakerInfo)))
       (\<lambda>(totalDelegated, found, clients1).
     wthen (wcheck (maxTotalStake < totalDelegated + totalStake) ''delegate over total stake limitation'') (
     wthen (wcheck (totalStake * MaxTimeDelegate < totalDelegated) ''over delegate limitation'') (
     wthen (wcheck (\<not> found \<and> con_value c < minDelegatorStake) ''low amount'') (
     let stakerInfo1 =
           (if found then stakerInfo\<lparr>si_Clients := clients1\<rparr>
            else stakerInfo\<lparr>si_Clients := clients1 @
              [\<lparr>ci_Address = CallerAddress c, ci_Amount = con_value c,
                ci_StakeAmount = con_value c * sint (CalLocktimeWeight PSMinEpochNum), ci_QuitEpoch = 0\<rparr>]\<rparr>)
     in
     wthen (saveStakeInfo (ctx_db ctx) stakerInfo1) (
     wthen (delegateInLog c ctx (si_Address stakerInfo1)) (wret []))))))))))"

text \<open>The loop of \<^verbatim>\<open>DelegateOut\<close> stops at the first client of the caller.\<close>

fun quit_loop :: "address \<Rightarrow> uint64 \<Rightarrow> ClientInfo list \<Rightarrow> ClientInfo list result" where
  "quit_loop caller quit [] = Inl (Err ''item doesn't exist'')"
| "quit_loop caller quit (ci # cs) =
     (if ci_Address ci = caller
      then if ci_QuitEpoch ci \<noteq> 0 then Inl (Err ''delegator has existed'')
           else Inr (ci\<lparr>ci_QuitEpoch := quit\<rparr> # cs)
      else case quit_loop caller quit cs of Inl e \<Rightarrow> Inl e | Inr cs1 \<Rightarrow> Inr (ci # cs1))"

definition DelegateOut :: "bytes \<Rightarrow> contract \<Rightarrow> vmctx \<Rightarrow> bytes wop" where
  "DelegateOut payload c ctx =
     wbind (wlift (delegateOutParseAndValid payload)) (\<lambda>addr.
     wbind (getStakeInfo addr) (\<lambda>stakerInfo.
     wbind (wlift (quit_loop (CallerAddress c) (epoch_now ctx + QuitDelay) (si_Clients stakerInfo))) (\<lambda>clients1.
     let stakerInfo1 = stakerInfo\<lparr>si_Clients := clients1\<rparr> in
     wthen (saveStakeInfo (ctx_db ctx) stakerInfo1) (
     wthen (delegateOutLog c ctx (si_Address stakerInfo1)) (wret [])))))"

definition StakeUpdateFeeRate :: "bytes \<Rightarrow> contract \<Rightarrow> vmctx \<Rightarrow> bytes wop" where
  "StakeUpdateFeeRate payload c ctx =
     wbind (wlift (updateFeeRateParseAndValid payload)) (\<lambda>feeRateParam.
     wbind (getStakeInfo (ufp_Addr feeRateParam)) (\<lambda>stakeInfo.
     wthen (wcheck (si_FeeRate stakeInfo = PSMaxFeeRate \<or> big_Uint64 (ufp_FeeRate feeRateParam) = PSMaxFeeRate)
              ''feeRate equal 10000, can't change'') (
     wthen (wcheck (si_FeeRate stakeInfo = big_Uint64 (ufp_FeeRate feeRateParam)) ''feeRate already same'') (
     wthen (wcheck (CallerAddress c \<noteq> si_From stakeInfo) ''cannot update fee from another account'') (
     let eid = epoch_now ctx in
     wbind (getStakeFeeRate (si_Address stakeInfo)) (\<lambda>old.
     wthen (wcheck (case old of None \<Rightarrow> False | Some u \<Rightarrow> uf_ChangedEpoch u = eid)
              ''one epoch can only change one time'') (
     let oldFee = (case old of
           None \<Rightarrow> \<lparr>uf_ValidatorAddr = si_Address stakeInfo, uf_MaxFeeRate = si_FeeRate stakeInfo,
                    uf_FeeRate = si_FeeRate stakeInfo, uf_ChangedEpoch = eid\<rparr>
         | Some u \<Rightarrow> u);
         feeRate = big_Uint64 (ufp_FeeRate feeRateParam)
     in
     wthen (wcheck (uf_MaxFeeRate oldFee < feeRate) ''fee rate can't bigger than old'') (
     wthen (wcheck (si_FeeRate stakeInfo + PSFeeRateStep < feeRate) ''0 <= newFeeRate <= oldFeerate + 100'') (
     let oldFee1 = oldFee\<lparr>uf_FeeRate := feeRate, uf_ChangedEpoch := eid\<rparr>;
         stakeInfo1 = stakeInfo\<lparr>si_FeeRate := feeRate\<rparr>
     in
     wthen (saveStakeInfo (ctx_db ctx) stakeInfo1) (
     wthen (saveStakeFeeRate (ctx_db ctx) oldFee1 (si_Address stakeInfo1)) (
     wthen (stakeUpdateFeeRateLog c ctx oldFee1) (wret []))))))))))))"

definition csc_Run :: "cscEnv \<Rightarrow> vmctx \<Rightarrow> bytes \<Rightarrow> contract \<Rightarrow> bytes wop" where
  "csc_Run env ctx input c =
     (let db = ctx_db ctx; methodId = take 4 input; payload = drop 4 input in
      if length input < 4 then wfail (Err ''parameter is wrong'')
      else if methodId = method_id db stakeRegister_sig then StakeRegister env payload c ctx
      else if methodId = method_id db stakeIn_sig then StakeIn env payload c ctx
      else if methodId = method_id db stakeUpdate_sig then StakeUpdate payload c ctx
      else if methodId = method_id db stakeAppend_sig then StakeAppend env payload c ctx
      else if methodId = method_id db partnerIn_sig then PartnerIn env payload c ctx
      else if methodId = method_id db delegateIn_sig then DelegateIn payload c ctx
      else if methodId = method_id db delegateOut_sig then DelegateOut payload c ctx
      else if methodId = method_id db stakeUpdateFeeRate_sig then StakeUpdateFeeRate payload c ctx
      else wfail (Err ''error method id''))"

definition csc_RequiredGas :: "bytes \<Rightarrow> uint64" where
  "csc_RequiredGas input = 0"

definition PosStaking :: "cscEnv \<Rightarrow> precompiled" where
  "PosStaking env = \<lparr>pc_RequiredGas = csc_RequiredGas, pc_Run = csc_Run env\<rparr>"

text \<open>The check of a transaction to the contract before it enters the pool.  Error texts that append another
  error are cut at their own text.\<close>

definition csc_ValidTx :: "database \<Rightarrow> cscEnv \<Rightarrow> bytes \<Rightarrow> unit result" where
  "csc_ValidTx db env input =
     (let methodId = take 4 input; payload = drop 4 input;
          early = fst (CalEpochSlotID (NowUnix env)) < ApolloEpochID;
          verify = (\<lambda>ok msg. if ok then Inr () else Inl (Err msg))
      in
      if length input < 4 then Inl (Err ''parameter is too short'')
      else if IsNoStaking env then Inl (Err ''noStaking specified'')
      else if methodId = method_id db stakeRegister_sig
      then if early then Inl (Err ''stakeRegister haven't enabled.'')
           else verify (\<not> isl (stakeRegisterParseAndValid env payload)) ''stakeRegister verify failed''
      else if methodId = method_id db stakeIn_sig then verify (\<not> isl (stakeInParseAndValid env payload)) ''stakein verify failed''
      else if methodId = method_id db stakeAppend_sig then verify (\<not> isl (stakeAppendParseAndValid payload)) ''stakeAppend verify failed ''
      else if methodId = method_id db stakeUpdate_sig then verify (\<not> isl (stakeUpdateParseAndValid payload)) ''stakeUpdate verify failed ''
      else if methodId = method_id db partnerIn_sig then verify (\<not> isl (partnerInParseAndValid payload)) ''partnerIn verify failed ''
      else if methodId = method_id db delegateIn_sig then verify (\<not> isl (delegateInParseAndValid payload)) ''delegateIn verify failed''
      else if methodId = method_id db delegateOut_sig then verify (\<not> isl (delegateOutParseAndValid payload)) ''delegateOut verify failed''
      else if methodId = method_id db stakeUpdateFeeRate_sig
      then if early then Inl (Err ''stakeUpdateFeeRateId haven't enabled.'')
           else verify (\<not> isl (updateFeeRateParseAndValid payload)) ''update fee rate verify failed''
      else Inl (Err ''error parameters''))"

end
