(* ===== verification/Staking_Store.thy ===== *)
theory Staking_Store
  imports Staking
begin

text \<open>
  The storage of the staking contract: that the RLP coding of its records is lossless, that a record that is
  saved is the one that is read back, and a bound on the size of the encoded records.
\<close>

section \<open>Coding of the records\<close>

lemma BytesToAddress_address_bytes [simp]: "BytesToAddress (address_bytes a) = a"
proof -
  have "unat a < 2 ^ 160" using unsigned_less [of a] by simp
  then show ?thesis by (simp add: BytesToAddress_def address_bytes_def be_nat_be_fixed)
qed

lemma length_address_bytes [simp]: "length (address_bytes a) = 20"
  by (simp add: address_bytes_def)

lemma decodes_address: "decodes decodeAddress a (rlp_enc (RBytes (address_bytes a)))"
proof -
  have "decodes (decodeByteArray 20 ''common.Address'') (address_bytes a) (rlp_enc (RBytes (address_bytes a)))"
    using decodes_decodeByteArray [of "address_bytes a" "''common.Address''"] by simp
  from decodes_sbind [OF this, of "\<lambda>b. sret (BytesToAddress b)" a "[]"] decodes_sret [of a] show ?thesis
    by (simp add: decodeAddress_def)
qed

lemma at_end_decodeAddress: "at_end decodeAddress"
  unfolding decodeAddress_def by (simp add: rlp_dec)

text \<open>The fields of an encoded structure are short when the structure is.\<close>

lemma short_fields:
  assumes "length (rlp_enc (RList vs)) < 2 ^ 64" and "v \<in> set vs"
  shows "length (rlp_enc v) < 2 ^ 64"
proof -
  have "length (concat (map rlp_enc vs)) < 2 ^ 64"
    using assms(1) length_enc_list_ge [of "concat (map rlp_enc vs)"] by simp
  moreover have "length (rlp_enc v) \<le> length (concat (map rlp_enc vs))" by (rule length_concat_ge [OF assms(2)])
  ultimately show ?thesis by linarith
qed

lemma short_payload: "length (rlp_enc (RList vs)) < 2 ^ 64 \<Longrightarrow> length (concat (map rlp_enc vs)) < 2 ^ 64"
  using length_enc_list_ge [of "concat (map rlp_enc vs)"] by simp

lemma short_big: "length (rlp_enc (RBig (Some x))) < 2 ^ 64 \<Longrightarrow> length (big_Bytes x) < 2 ^ 64"
  using length_enc_str_ge [of "big_Bytes x"] by simp

lemma short_bytes: "length (rlp_enc (RBytes b)) < 2 ^ 64 \<Longrightarrow> length b < 2 ^ 64"
  using length_enc_str_ge [of b] by simp

lemma struct_decodes:
  assumes "decodes flds x (concat (map rlp_enc vs))" and "length (rlp_enc (RList vs)) < 2 ^ 64"
  shows "decodes (structDecoder tyn flds) x (rlp_enc (RList vs))"
  using structDecoder_decodes [OF assms(1), of tyn] short_payload [OF assms(2)] by simp

lemma decodes_field:
  assumes "decodes d x (rlp_enc v)" and "decodes (g x) y (concat (map rlp_enc vs))"
  shows "decodes (sbind (struct_field tyn d) g) y (concat (map rlp_enc (v # vs)))"
  using decodes_sbind [OF decodes_struct_field [OF assms(1), of tyn], of g] assms(2) by simp

lemma decodes_done: "x = y \<Longrightarrow> decodes (sret x) y (concat (map rlp_enc []))"
  using decodes_sret [of x] by simp

lemmas field_decoders = decodes_address decodes_decodeUint decodes_decodeBool

definition client_storable :: "ClientInfo \<Rightarrow> bool" where
  "client_storable c = (0 \<le> ci_Amount c \<and> 0 \<le> ci_StakeAmount c)"

definition partner_storable :: "PartnerInfo \<Rightarrow> bool" where
  "partner_storable p = (0 \<le> pi_Amount p \<and> 0 \<le> pi_StakeAmount p)"

definition staker_storable :: "StakerInfo \<Rightarrow> bool" where
  "staker_storable s = (0 \<le> si_Amount s \<and> 0 \<le> si_StakeAmount s \<and>
     list_all client_storable (si_Clients s) \<and> list_all partner_storable (si_Partners s))"

interpretation client_codec: rlp_slice client_val decodeClientInfo client_storable "''[]vm.ClientInfo''"
proof
  fix c assume s: "client_storable c" and l: "length (rlp_enc (client_val c)) < 2 ^ 64"
  note sf = short_fields [OF l [unfolded client_val_def]]
  have d: "decodes decodeBigInt (ci_Amount c) (rlp_enc (RBig (Some (ci_Amount c))))"
    "decodes decodeBigInt (ci_StakeAmount c) (rlp_enc (RBig (Some (ci_StakeAmount c))))"
    using s by (auto intro!: decodes_decodeBigInt short_big sf simp: client_storable_def simp del: rlp_enc.simps)
  show "decodes decodeClientInfo c (rlp_enc (client_val c))"
    unfolding client_val_def decodeClientInfo_def
    by (rule struct_decodes [OF _ l [unfolded client_val_def]]) ((rule decodes_field, rule field_decoders d)+, rule decodes_done, simp)
qed (simp_all add: client_val_def client_storable_def decodeClientInfo_def at_end_decoders)

interpretation partner_codec: rlp_slice partner_val decodePartnerInfo partner_storable "''[]vm.PartnerInfo''"
proof
  fix p assume s: "partner_storable p" and l: "length (rlp_enc (partner_val p)) < 2 ^ 64"
  note sf = short_fields [OF l [unfolded partner_val_def]]
  have d: "decodes decodeBigInt (pi_Amount p) (rlp_enc (RBig (Some (pi_Amount p))))"
    "decodes decodeBigInt (pi_StakeAmount p) (rlp_enc (RBig (Some (pi_StakeAmount p))))"
    using s by (auto intro!: decodes_decodeBigInt short_big sf simp: partner_storable_def simp del: rlp_enc.simps)
  show "decodes decodePartnerInfo p (rlp_enc (partner_val p))"
    unfolding partner_val_def decodePartnerInfo_def
    by (rule struct_decodes [OF _ l [unfolded partner_val_def]]) ((rule decodes_field, rule field_decoders d)+, rule decodes_done, simp)
qed (simp_all add: partner_val_def partner_storable_def decodePartnerInfo_def at_end_decoders)

interpretation staker_codec: rlp_codec staker_val decodeStakerInfo staker_storable
proof
  fix x assume s: "staker_storable x" and l: "length (rlp_enc (staker_val x)) < 2 ^ 64"
  note sf = short_fields [OF l [unfolded staker_val_def]]
  have d: "decodes decodeBigInt (si_Amount x) (rlp_enc (RBig (Some (si_Amount x))))"
    "decodes decodeBigInt (si_StakeAmount x) (rlp_enc (RBig (Some (si_StakeAmount x))))"
    using s by (auto intro!: decodes_decodeBigInt short_big sf simp: staker_storable_def simp del: rlp_enc.simps)
  have e: "decodes decodeByteSlice (si_PubSec256 x) (rlp_enc (RBytes (si_PubSec256 x)))"
    "decodes decodeByteSlice (si_PubBn256 x) (rlp_enc (RBytes (si_PubBn256 x)))"
    "decodes (decodeListSlice ''[]vm.ClientInfo'' decodeClientInfo) (si_Clients x) (rlp_enc (RList (map client_val (si_Clients x))))"
    "decodes (decodeListSlice ''[]vm.PartnerInfo'' decodePartnerInfo) (si_Partners x) (rlp_enc (RList (map partner_val (si_Partners x))))"
    using s by (auto intro!: decodes_decodeByteSlice client_codec.slice.dec_enc partner_codec.slice.dec_enc
        short_bytes sf simp: staker_storable_def simp del: rlp_enc.simps)
  show "decodes decodeStakerInfo x (rlp_enc (staker_val x))"
    unfolding staker_val_def decodeStakerInfo_def
    by (rule struct_decodes [OF _ l [unfolded staker_val_def]]) ((rule decodes_field, rule field_decoders d e)+, rule decodes_done, simp)
next
  fix x assume "staker_storable x"
  then show "encodable (staker_val x)"
    by (auto simp: staker_val_def staker_storable_def client_val_def partner_val_def client_storable_def
        partner_storable_def list_all_iff)
qed (simp add: decodeStakerInfo_def at_end_decoders)

interpretation feeRate_codec: rlp_codec feeRate_val decodeUpdateFeeRate "\<lambda>_. True"
proof
  fix x assume l: "length (rlp_enc (feeRate_val x)) < 2 ^ 64"
  show "decodes decodeUpdateFeeRate x (rlp_enc (feeRate_val x))"
    unfolding feeRate_val_def decodeUpdateFeeRate_def
    by (rule struct_decodes [OF _ l [unfolded feeRate_val_def]]) ((rule decodes_field, rule field_decoders)+, rule decodes_done, simp)
qed (simp_all add: feeRate_val_def decodeUpdateFeeRate_def at_end_decoders)

section \<open>Size of the records\<close>

lemma length_nat_be: "n < 256 ^ k \<Longrightarrow> length (nat_be n) \<le> k"
proof (induction k arbitrary: n)
  case (Suc k)
  show ?case
  proof (cases "n = 0")
    case False
    have "n div 256 < 256 ^ k" using Suc.prems by (simp add: less_mult_imp_div_less mult.commute)
    then have "length (nat_be (n div 256)) \<le> k" by (rule Suc.IH)
    then show ?thesis using False by (subst nat_be.simps) simp
  qed (simp add: nat_be.simps)
qed (simp add: nat_be.simps)

lemma length_uint_bytes: "length (nat_be (unat (w :: uint64))) \<le> 8"
  using unsigned_less [of w, where ?'a = nat] by (intro length_nat_be) simp

lemma intsize_le_8: "intsize w \<le> 8"
proof -
  have "unat w div 256 < 256 ^ 7" using unsigned_less [of w, where ?'a = nat] by simp
  then have "length (nat_be (unat w div 256)) \<le> 7" by (rule length_nat_be)
  then show ?thesis by (simp add: intsize_def intsize_loop_eq)
qed

lemma length_enc_str_le: "length (enc_str b) \<le> length b + 9"
  using intsize_le_8 [of "word_of_nat (length b)"] by (simp add: enc_str_def length_puthead headsize_def)

lemma length_enc_list_le: "length (enc_list b) \<le> length b + 9"
  using intsize_le_8 [of "word_of_nat (length b)"] by (simp add: enc_list_def length_puthead headsize_def)

text \<open>An upper bound for the encoding of a value whose integers have at most 160 bits.\<close>

fun vsize :: "rlp_val \<Rightarrow> nat" where
  "vsize (RBool _) = 10"
| "vsize (RUint _) = 17"
| "vsize (RBig _) = 29"
| "vsize (RBytes b) = length b + 9"
| "vsize (RList vs) = 9 + sum_list (map vsize vs)"

fun vsmall :: "rlp_val \<Rightarrow> bool" where
  "vsmall (RBig (Some x)) = (0 \<le> x \<and> x < 2 ^ 160)"
| "vsmall (RList vs) = list_all vsmall vs"
| "vsmall _ = True"

lemma length_rlp_enc_le: "vsmall v \<Longrightarrow> length (rlp_enc v) \<le> vsize v"
proof (induction v rule: vsize.induct)
  case (1 b)
  then show ?case using length_enc_str_le [of "if b then [1] else []"] by (simp split: if_splits)
next
  case (2 w)
  then show ?case using length_enc_str_le [of "nat_be (unat w)"] length_uint_bytes [of w] by simp
next
  case (3 p)
  show ?case
  proof (cases p)
    case None
    then show ?thesis using length_enc_str_le [of "[]"] by simp
  next
    case (Some x)
    with 3 have "nat x < 256 ^ 20" by (simp add: nat_less_iff)
    from length_nat_be [OF this] Some 3 show ?thesis using length_enc_str_le [of "big_Bytes x"] by (simp add: big_Bytes_def)
  qed
next
  case (4 b)
  then show ?case using length_enc_str_le [of b] by simp
next
  case (5 vs)
  have "length (concat (map rlp_enc vs)) \<le> sum_list (map vsize vs)"
    using 5 by (induction vs) (simp_all add: add_mono)
  then show ?case using length_enc_list_le [of "concat (map rlp_enc vs)"] by simp
qed

lemma vsize_client [simp]: "vsize (client_val c) = 113"
  by (simp add: client_val_def)

lemma vsize_partner [simp]: "vsize (partner_val p) = 140"
  by (simp add: partner_val_def)

lemma vsize_feeRate [simp]: "vsize (feeRate_val u) = 89"
  by (simp add: feeRate_val_def)

lemma vsize_staker:
  "vsize (staker_val s) = 229 + length (si_PubSec256 s) + length (si_PubBn256 s) +
     113 * length (si_Clients s) + 140 * length (si_Partners s)"
  by (simp add: staker_val_def comp_def sum_list_triv)

lemma length_feeRate: "length (rlp_enc (feeRate_val u)) < 2 ^ 64"
  using length_rlp_enc_le [of "feeRate_val u"] by (simp add: feeRate_val_def)

section \<open>What the contract stores\<close>

text \<open>The validators a state holds, as \<^verbatim>\<open>getStakeInfo\<close> reads them, and the fee records.\<close>

definition stakers :: "world \<Rightarrow> address \<Rightarrow> StakerInfo option" where
  "stakers w a = (case fst (getStakeInfo a w) of Inl _ \<Rightarrow> None | Inr s \<Rightarrow> Some s)"

definition fee_records :: "world \<Rightarrow> address \<Rightarrow> UpdateFeeRate option" where
  "fee_records w a = (case fst (getStakeFeeRate a w) of Inl _ \<Rightarrow> None | Inr u \<Rightarrow> u)"

definition staker_total :: "StakerInfo \<Rightarrow> int" where
  "staker_total s = si_Amount s + sum_list (map ci_Amount (si_Clients s)) + sum_list (map pi_Amount (si_Partners s))"

definition client_ok :: "ClientInfo \<Rightarrow> bool" where
  "client_ok c = (minDelegatorStake \<le> ci_Amount c \<and> ci_StakeAmount c = 1002 * ci_Amount c)"

definition partner_ok :: "PartnerInfo \<Rightarrow> bool" where
  "partner_ok p = (0 \<le> pi_Amount p \<and> 0 \<le> pi_StakeAmount p \<and> pi_StakeAmount p \<le> 1500 * pi_Amount p)"

definition lock_ok :: "uint64 \<Rightarrow> bool" where
  "lock_ok l = (7 \<le> l \<and> l \<le> 90)"

definition staker_ok :: "StakerInfo \<Rightarrow> bool" where
  "staker_ok s =
     (minStakeholderStake \<le> si_Amount s \<and> 0 \<le> si_StakeAmount s \<and> si_StakeAmount s \<le> 1500 * si_Amount s \<and>
      list_all client_ok (si_Clients s) \<and> list_all partner_ok (si_Partners s) \<and>
      staker_total s \<le> maxTotalStake \<and> length (si_Partners s) \<le> maxPartners \<and>
      distinct (map ci_Address (si_Clients s)) \<and> distinct (map pi_Address (si_Partners s)) \<and>
      sum_list (map ci_Amount (si_Clients s)) \<le>
        MaxTimeDelegate * (si_Amount s + sum_list (map pi_Amount (si_Partners s))) \<and>
      si_FeeRate s \<le> 10000 \<and> lock_ok (si_LockEpochs s) \<and>
      (si_NextLockEpochs s = 0 \<or> lock_ok (si_NextLockEpochs s)) \<and>
      length (si_PubSec256 s) = 65 \<and> length (si_PubBn256 s) < 2 ^ 63)"

text \<open>A record as the contract keeps it: under its own address, and well-formed.\<close>

definition kept :: "address \<Rightarrow> StakerInfo \<Rightarrow> bool" where
  "kept a s = (si_Address s = a \<and> staker_ok s)"

subsection \<open>Records fit\<close>

lemma clients_sum:
  assumes "list_all client_ok cs"
  shows "minDelegatorStake * int (length cs) \<le> sum_list (map ci_Amount cs)"
  using assms by (induction cs) (auto simp: client_ok_def algebra_simps)

lemma sum_list_nonneg_all: "list_all (\<lambda>x. 0 \<le> f x) xs \<Longrightarrow> 0 \<le> sum_list (map f xs)" for f :: "'a \<Rightarrow> int"
  by (induction xs) auto

lemma member_le_sum: "list_all (\<lambda>x. 0 \<le> f x) xs \<Longrightarrow> x \<in> set xs \<Longrightarrow> f x \<le> sum_list (map f xs)" for f :: "'a \<Rightarrow> int"
proof (induction xs)
  case (Cons y ys)
  then have "0 \<le> sum_list (map f ys)" using sum_list_nonneg_all [of f ys] by simp
  with Cons show ?case by auto
qed simp

lemma ok_amounts:
  assumes "staker_ok s"
  shows "0 \<le> sum_list (map ci_Amount (si_Clients s))" "0 \<le> sum_list (map pi_Amount (si_Partners s))"
    "list_all (\<lambda>c. 0 \<le> ci_Amount c) (si_Clients s)" "list_all (\<lambda>p. 0 \<le> pi_Amount p) (si_Partners s)" "0 \<le> si_Amount s"
proof -
  show c: "list_all (\<lambda>c. 0 \<le> ci_Amount c) (si_Clients s)"
    using assms by (auto simp: staker_ok_def client_ok_def list_all_iff minDelegatorStake_def ether_def)
  show p: "list_all (\<lambda>p. 0 \<le> pi_Amount p) (si_Partners s)"
    using assms by (auto simp: staker_ok_def partner_ok_def list_all_iff)
  show "0 \<le> sum_list (map ci_Amount (si_Clients s))" by (rule sum_list_nonneg_all [OF c])
  show "0 \<le> sum_list (map pi_Amount (si_Partners s))" by (rule sum_list_nonneg_all [OF p])
  show "0 \<le> si_Amount s" using assms by (simp add: staker_ok_def minStakeholderStake_def ether_def)
qed

lemma ok_storable: "staker_ok s \<Longrightarrow> staker_storable s"
  using ok_amounts [of s]
  by (auto simp: staker_ok_def staker_storable_def client_storable_def partner_storable_def client_ok_def
      partner_ok_def list_all_iff minDelegatorStake_def ether_def)

lemma ok_bounds:
  assumes "staker_ok s"
  shows "si_Amount s \<le> maxTotalStake" "c \<in> set (si_Clients s) \<Longrightarrow> ci_Amount c \<le> maxTotalStake"
    "p \<in> set (si_Partners s) \<Longrightarrow> pi_Amount p \<le> maxTotalStake" "length (si_Clients s) \<le> 105000"
proof -
  note a = ok_amounts [OF assms]
  have t: "si_Amount s + sum_list (map ci_Amount (si_Clients s)) + sum_list (map pi_Amount (si_Partners s)) \<le> maxTotalStake"
    using assms by (simp add: staker_ok_def staker_total_def)
  show "si_Amount s \<le> maxTotalStake" using t a by linarith
  show "ci_Amount c \<le> maxTotalStake" if "c \<in> set (si_Clients s)" using t a member_le_sum [OF a(3) that] by linarith
  show "pi_Amount p \<le> maxTotalStake" if "p \<in> set (si_Partners s)" using t a member_le_sum [OF a(4) that] by linarith
  have "minDelegatorStake * int (length (si_Clients s)) \<le> maxTotalStake"
    using clients_sum [of "si_Clients s"] t a assms by (simp add: staker_ok_def)
  then show "length (si_Clients s) \<le> 105000" by (simp add: minDelegatorStake_def maxTotalStake_def ether_def)
qed

lemma ok_small:
  assumes "staker_ok s"
  shows "vsmall (staker_val s)"
proof -
  have m: "x \<le> maxTotalStake \<Longrightarrow> 1500 * x < 2 ^ 160" for x by (simp add: maxTotalStake_def ether_def)
  have c: "vsmall (client_val c)" if "c \<in> set (si_Clients s)" for c
    using ok_bounds(2) [OF assms that] assms that m [of "ci_Amount c"]
    by (auto simp: client_val_def staker_ok_def client_ok_def list_all_iff minDelegatorStake_def ether_def)
  have p: "vsmall (partner_val p)" if "p \<in> set (si_Partners s)" for p
    using ok_bounds(3) [OF assms that] assms that m [of "pi_Amount p"]
    by (auto simp: partner_val_def staker_ok_def partner_ok_def list_all_iff)
  show ?thesis
    using c p ok_bounds(1) [OF assms] m [of "si_Amount s"] ok_amounts(5) [OF assms] assms
    by (simp add: staker_val_def list_all_iff) (simp add: staker_ok_def)
qed

lemma ok_length:
  assumes "staker_ok s"
  shows "length (rlp_enc (staker_val s)) < 2 ^ 64"
proof -
  have "length (si_PubSec256 s) = 65" "length (si_PubBn256 s) < 2 ^ 63" "length (si_Partners s) \<le> 5"
    using assms by (simp_all add: staker_ok_def maxPartners_def)
  with length_rlp_enc_le [OF ok_small [OF assms]] ok_bounds(4) [OF assms] show ?thesis
    by (simp add: vsize_staker)
qed

subsection \<open>Saving and reading\<close>

lemma key_inj [simp]: "GetStakeInKeyHash a = GetStakeInKeyHash b \<longleftrightarrow> a = b"
proof -
  have k: "unat (GetStakeInKeyHash a) = unat a" for a
  proof -
    have "unat a < 2 ^ 160" using unsigned_less [of a] by simp
    then have l: "be_nat (address_bytes a) = unat a" by (simp add: address_bytes_def be_nat_be_fixed)
    have "unat (word_of_nat (unat a) :: hash) = unat a mod 2 ^ 256" by (simp only: unat_of_nat) simp
    with l \<open>unat a < 2 ^ 160\<close> show ?thesis by (simp only: GetStakeInKeyHash_def BytesToHash_def) simp
  qed
  show ?thesis using k [of a] k [of b] by (metis word_unat_eq_iff)
qed

lemma key_zero [simp]: "GetStakeInKeyHash a = 0 \<longleftrightarrow> a = 0"
proof -
  have "GetStakeInKeyHash 0 = 0" by (simp add: GetStakeInKeyHash_def address_bytes_def BytesToHash_def be_nat_be_fixed)
  then show ?thesis using key_inj [of a 0] by simp
qed

definition staker_of :: "bytes \<Rightarrow> StakerInfo option" where
  "staker_of b = (if b = [] then None else case DecodeBytes decodeStakerInfo b of Inl _ \<Rightarrow> None | Inr s \<Rightarrow> Some s)"

lemma stakers_eq: "stakers w a = (if a = 0 then None else staker_of (wGetStateByteArray StakersInfoAddr (GetStakeInKeyHash a) w))"
  by (simp add: stakers_def getStakeInfo_def GetInfo_def wfail_def wread_def staker_of_def Let_def split: sum.split)

lemma getStakeInfo_stakers:
  "getStakeInfo a w = (Inr s, w') \<longleftrightarrow> w' = w \<and> stakers w a = Some s"
  by (auto simp: stakers_def getStakeInfo_def Let_def split: sum.split prod.split)

lemma getStakeInfo_world: "snd (getStakeInfo a w) = w"
  by (simp add: getStakeInfo_def Let_def split: sum.split)

definition fee_of :: "bytes \<Rightarrow> UpdateFeeRate option" where
  "fee_of b = (if b = [] then None else case DecodeBytes decodeUpdateFeeRate b of Inl _ \<Rightarrow> None | Inr u \<Rightarrow> Some u)"

lemma fee_records_eq:
  "fee_records w a = (if a = 0 then None else fee_of (wGetStateByteArray StakersFeeAddr (GetStakeInKeyHash a) w))"
  by (simp add: fee_records_def getStakeFeeRate_def GetInfo_def wop_defs fee_of_def split: sum.split)

lemma saveStakeInfo_eq:
  assumes "staker_ok s"
  shows "saveStakeInfo db s w =
    (if si_Address s = 0 then (Inl (Err ''public key hash is not right''), w)
     else (Inr (), wSetStateByteArray db StakersInfoAddr (GetStakeInKeyHash (si_Address s)) (rlp_enc (staker_val s)) w))"
  by (simp add: saveStakeInfo_def StoreInfo_def wop_defs staker_codec.decode_encoded(1) [OF ok_storable [OF assms] ok_length [OF assms]])

lemma saveStakeFeeRate_eq:
  "saveStakeFeeRate db u a w =
    (if a = 0 then (Inl (Err ''public key hash is not right''), w)
     else (Inr (), wSetStateByteArray db StakersFeeAddr (GetStakeInKeyHash a) (rlp_enc (feeRate_val u)) w))"
  by (simp add: saveStakeFeeRate_def StoreInfo_def wop_defs feeRate_codec.decode_encoded(1) [OF TrueI length_feeRate])

lemma stakers_set_staker:
  assumes "staker_ok s" and "si_Address s \<noteq> 0"
  shows "stakers (wSetStateByteArray db StakersInfoAddr (GetStakeInKeyHash (si_Address s)) (rlp_enc (staker_val s)) w) =
    (stakers w)(si_Address s \<mapsto> s)"
  using assms staker_codec.decode_encoded(2) [OF ok_storable ok_length, of s]
  by (auto simp: stakers_eq staker_of_def fun_eq_iff)

lemma fees_set_fee:
  "a \<noteq> 0 \<Longrightarrow> fee_records (wSetStateByteArray db StakersFeeAddr (GetStakeInKeyHash a) (rlp_enc (feeRate_val u)) w) =
    (fee_records w)(a \<mapsto> u)"
  using feeRate_codec.decode_encoded(2) [OF TrueI length_feeRate, of u]
  by (auto simp: fee_records_eq fee_of_def fun_eq_iff)

lemma stakers_frame [simp]:
  "stakers (wSetStateByteArray db StakersFeeAddr k b w) = stakers w"
  "stakers (wAddLog l w) = stakers w"
  "stakers (Transfer db x y n w) = stakers w"
  by (simp_all add: stakers_eq fun_eq_iff precompile_addrs)

lemma fee_records_frame [simp]:
  "fee_records (wSetStateByteArray db StakersInfoAddr k b w) = fee_records w"
  "fee_records (wAddLog l w) = fee_records w"
  "fee_records (Transfer db x y n w) = fee_records w"
  by (simp_all add: fee_records_eq fun_eq_iff precompile_addrs)

lemma sum_fun_upd:
  fixes f :: "'b \<Rightarrow> int" and m :: "address \<Rightarrow> 'b"
  shows "(\<Sum>b\<in>UNIV. f ((m(a := y)) b)) = (\<Sum>b\<in>UNIV. f (m b)) - f (m a) + f y"
proof -
  have "(\<Sum>b\<in>UNIV. f ((m(a := y)) b)) = f y + (\<Sum>b\<in>UNIV - {a}. f ((m(a := y)) b))"
    using sum.remove [of UNIV a "\<lambda>b. f ((m(a := y)) b)"] by simp
  also have "(\<Sum>b\<in>UNIV - {a}. f ((m(a := y)) b)) = (\<Sum>b\<in>UNIV - {a}. f (m b))"
    by (rule sum.cong) simp_all
  also have "\<dots> = (\<Sum>b\<in>UNIV. f (m b)) - f (m a)"
    using sum.remove [of UNIV a "\<lambda>b. f (m b)"] by simp
  finally show ?thesis by simp
qed

text \<open>The interface of a table of records that handlers use: what is saved is what is read, other records and
  all balances stay.\<close>

locale record_store =
  fixes save :: "address \<Rightarrow> 'a \<Rightarrow> unit wop" and table :: "world \<Rightarrow> address \<Rightarrow> 'a option" and good :: "address \<Rightarrow> 'a \<Rightarrow> bool"
  assumes save_zero: "good 0 x \<Longrightarrow> \<exists>e. save 0 x w = (Inl (Err e), w)"
    and save_table: "good a x \<Longrightarrow> a \<noteq> 0 \<Longrightarrow>
      \<exists>w'. save a x w = (Inr (), w') \<and> table w' = (table w)(a \<mapsto> x) \<and> (\<forall>b. wGetBalance b w' = wGetBalance b w)"
begin

lemma save_cases:
  assumes "good a x" and "save a x w = (r, w')"
  obtains e where "a = 0" and "r = Inl (Err e)" and "w' = w"
  | "a \<noteq> 0" and "r = Inr ()" and "table w' = (table w)(a \<mapsto> x)" and "\<And>b. wGetBalance b w' = wGetBalance b w"
  using assms save_zero [of x w] save_table [of a x w] by (cases "a = 0") auto

text \<open>Any property of all records is kept by saving a record that has it.\<close>

lemma table_invariant:
  assumes "\<forall>b y. table w b = Some y \<longrightarrow> P b y" and "good a x" and "P a x" and "save a x w = (r, w')"
  shows "\<forall>b y. table w' b = Some y \<longrightarrow> P b y"
  by (rule save_cases [OF assms(2,4)]) (use assms(1,3) in auto)

text \<open>Sums over the table change by the difference of the two records.\<close>

lemma table_sum:
  fixes f :: "'a option \<Rightarrow> int"
  assumes "good a x" and "save a x w = (Inr (), w')"
  shows "(\<Sum>b\<in>UNIV. f (table w' b)) = (\<Sum>b\<in>UNIV. f (table w b)) - f (table w a) + f (Some x)"
proof -
  have t: "table w' = (table w)(a \<mapsto> x)" using save_cases [OF assms] by fastforce
  show ?thesis unfolding t by (rule sum_fun_upd)
qed

end

interpretation staker_table: record_store "\<lambda>a s. saveStakeInfo db s" stakers kept for db
proof
  fix a s w assume "kept a s" and "a \<noteq> 0"
  then show "\<exists>w'. saveStakeInfo db s w = (Inr (), w') \<and> stakers w' = (stakers w)(a \<mapsto> s) \<and>
      (\<forall>b. wGetBalance b w' = wGetBalance b w)"
    by (auto simp: kept_def saveStakeInfo_eq stakers_set_staker)
qed (auto simp: kept_def saveStakeInfo_eq)

interpretation fee_table: record_store "\<lambda>a u. saveStakeFeeRate db u a" fee_records "\<lambda>_ _. True" for db
  by unfold_locales (simp_all add: saveStakeFeeRate_eq fees_set_fee)

section \<open>Evaluation\<close>

text \<open>Code equations that stay in binary numbers.\<close>

function int_be :: "int \<Rightarrow> bytes" where
  "int_be x = (if x \<le> 0 then [] else int_be (x div 256) @ [word_of_int (x mod 256)])"
  by pat_completeness auto
termination by (relation "measure nat") auto

declare int_be.simps [simp del]

lemma int_be_nat: "int_be (int n) = nat_be n"
proof (induction n rule: nat_be.induct)
  case (1 n)
  have "int n div 256 = int (n div 256)" "int n mod 256 = int (n mod 256)" by (simp_all add: zdiv_int zmod_int)
  with 1 show ?case
  proof (cases "n = 0")
    case False
    then have "int_be (int n) = int_be (int (n div 256)) @ [word_of_int (int (n mod 256))]"
      using int_be.simps [of "int n"] \<open>int n div 256 = _\<close> \<open>int n mod 256 = _\<close> by simp
    moreover have "nat_be n = nat_be (n div 256) @ [word_of_nat (n mod 256)]"
      using nat_be.simps [of n] False by simp
    ultimately show ?thesis using 1 [OF False] by simp
  qed (simp add: int_be.simps nat_be.simps)
qed

lemma big_Bytes_code [code]: "big_Bytes x = int_be \<bar>x\<bar>"
  using int_be_nat [of "nat \<bar>x\<bar>"] by (simp add: big_Bytes_def)

lemma hash_bytes_code [code]: "hash_bytes h = be_int 32 (uint h)"
  by (simp add: hash_bytes_def be_fixed_code)

lemma address_bytes_code [code]: "address_bytes a = be_int 20 (uint a)"
  by (simp add: address_bytes_def be_fixed_code)

lemma BytesToHash_code [code]: "BytesToHash b = word_of_int (big_SetBytes b)"
  by (simp add: BytesToHash_def big_SetBytes_def)

lemma BytesToAddress_code [code]: "BytesToAddress b = word_of_int (big_SetBytes b)"
  by (simp add: BytesToAddress_def big_SetBytes_def)

end
