(* ===== verification/Staking_Spec.thy ===== *)
theory Staking_Spec
  imports Staking_Store
begin

text \<open>
  An abstract specification of the staking contract: its transitions on the record of one validator, that they
  keep the record well-formed, that the dispatcher \<^verbatim>\<open>Run\<close> refines them, and that calls keep the
  contract solvent.
\<close>

section \<open>The loops\<close>

lemma partner_loop_eq:
  "partner_loop caller v wt rn t ps =
     (t + sum_list (map pi_Amount ps), caller \<in> pi_Address ` set ps,
      map (\<lambda>p. if pi_Address p = caller
               then p\<lparr>pi_Amount := pi_Amount p + v, pi_StakeAmount := pi_StakeAmount p + v * sint wt, pi_Renewal := rn\<rparr>
               else p) ps)"
  by (induction ps arbitrary: t) auto

definition add_delegation :: "address \<Rightarrow> int \<Rightarrow> ClientInfo \<Rightarrow> ClientInfo" where
  "add_delegation caller v c =
     (if ci_Address c = caller
      then c\<lparr>ci_Amount := ci_Amount c + v, ci_StakeAmount := ci_StakeAmount c + v * sint (CalLocktimeWeight PSMinEpochNum)\<rparr>
      else c)"

lemma delegate_loop_eq:
  "delegate_loop caller v t cs =
     (if \<exists>c\<in>set cs. ci_Address c = caller \<and> ci_QuitEpoch c \<noteq> 0 then Inl (Err ''dalegater is quiting.'')
      else Inr (t + sum_list (map ci_Amount cs), caller \<in> ci_Address ` set cs, map (add_delegation caller v) cs))"
  by (induction cs arbitrary: t) (auto simp: add_delegation_def)

lemma quit_loop_Inr:
  "quit_loop caller q cs = Inr cs' \<Longrightarrow>
     \<exists>pre c post. cs = pre @ c # post \<and> caller \<notin> ci_Address ` set pre \<and> ci_Address c = caller \<and> ci_QuitEpoch c = 0 \<and>
       cs' = pre @ c\<lparr>ci_QuitEpoch := q\<rparr> # post"
proof (induction cs arbitrary: cs')
  case (Cons c cs)
  show ?case
  proof (cases "ci_Address c = caller")
    case True
    with Cons.prems show ?thesis by (intro exI [of _ "[]"]) (auto split: if_splits)
  next
    case False
    with Cons.prems obtain cs1 where c1: "quit_loop caller q cs = Inr cs1" "cs' = c # cs1" by (auto split: sum.splits)
    from Cons.IH [OF c1(1)] obtain pre d post where
      "cs = pre @ d # post \<and> caller \<notin> ci_Address ` set pre \<and> ci_Address d = caller \<and> ci_QuitEpoch d = 0 \<and>
       cs1 = pre @ d\<lparr>ci_QuitEpoch := q\<rparr> # post" by blast
    with c1(2) False show ?thesis by (intro exI [of _ "c # pre"]) auto
  qed
qed simp

section \<open>Specification\<close>

text \<open>What a call by \<open>caller\<close> with \<open>v\<close> coins may do with one validator: \<open>None\<close> is an address
  that is not a validator yet.  \<open>e\<close> is the current epoch; \<open>paid\<close> says whether the coins are recorded as stake.\<close>

inductive csc_step :: "uint64 \<Rightarrow> address \<Rightarrow> int \<Rightarrow> bool \<Rightarrow> StakerInfo option \<Rightarrow> StakerInfo \<Rightarrow> bool"
  for e :: uint64 and caller :: address and v :: int where
  stake_in: "minStakeholderStake \<le> v \<Longrightarrow> v \<le> maxTotalStake \<Longrightarrow> lock_ok l \<Longrightarrow> fee \<le> 10000 \<Longrightarrow>
    length pk = 65 \<Longrightarrow> length bn < 2 ^ 63 \<Longrightarrow>
    csc_step e caller v True None
      \<lparr>si_Address = a, si_PubSec256 = pk, si_PubBn256 = bn, si_Amount = v,
       si_StakeAmount = v * sint (CalLocktimeWeight l), si_LockEpochs = l, si_NextLockEpochs = l, si_From = caller,
       si_StakingEpoch = se, si_FeeRate = fee, si_Clients = [], si_Partners = []\<rparr>"
| stake_append: "caller = si_From s \<Longrightarrow> 0 \<le> rle \<Longrightarrow> rle \<le> 90 \<Longrightarrow> staker_total s + v \<le> maxTotalStake \<Longrightarrow>
    wt = sint (CalLocktimeWeight (word_of_int rle)) \<Longrightarrow>
    sa = (si_Amount s + v) * wt \<or> sa = si_StakeAmount s + v * wt \<Longrightarrow>
    csc_step e caller v True (Some s) (s\<lparr>si_Amount := si_Amount s + v, si_StakeAmount := sa\<rparr>)"
| stake_update: "caller = si_From s \<Longrightarrow> l = 0 \<or> lock_ok l \<Longrightarrow>
    csc_step e caller v False (Some s) (s\<lparr>si_NextLockEpochs := l\<rparr>)"
| fee_update: "caller = si_From s \<Longrightarrow> si_FeeRate s \<noteq> 10000 \<Longrightarrow> fee < 10000 \<Longrightarrow> fee \<noteq> si_FeeRate s \<Longrightarrow>
    fee \<le> si_FeeRate s + 100 \<Longrightarrow> csc_step e caller v False (Some s) (s\<lparr>si_FeeRate := fee\<rparr>)"
| partner_more: "caller \<in> pi_Address ` set (si_Partners s) \<Longrightarrow> staker_total s + v \<le> maxTotalStake \<Longrightarrow>
    0 \<le> rle \<Longrightarrow> rle \<le> 90 \<Longrightarrow> wt = sint (CalLocktimeWeight (word_of_int rle)) \<Longrightarrow>
    csc_step e caller v True (Some s) (s\<lparr>si_Partners := map (\<lambda>p. if pi_Address p = caller
      then p\<lparr>pi_Amount := pi_Amount p + v, pi_StakeAmount := pi_StakeAmount p + v * wt, pi_Renewal := rn\<rparr> else p) (si_Partners s)\<rparr>)"
| partner_new: "caller \<notin> pi_Address ` set (si_Partners s) \<Longrightarrow> length (si_Partners s) < maxPartners \<Longrightarrow>
    staker_total s + v \<le> maxTotalStake \<Longrightarrow> 0 \<le> rle \<Longrightarrow> rle \<le> 90 \<Longrightarrow>
    csc_step e caller v True (Some s) (s\<lparr>si_Partners := si_Partners s @
      [\<lparr>pi_Address = caller, pi_Amount = v, pi_StakeAmount = v * sint (CalLocktimeWeight (word_of_int rle)),
        pi_Renewal = rn, pi_LockEpochs = word_of_int rle, pi_StakingEpoch = se\<rparr>]\<rparr>)"
| delegate_more: "caller \<in> ci_Address ` set (si_Clients s) \<Longrightarrow>
    \<forall>c\<in>set (si_Clients s). ci_Address c = caller \<longrightarrow> ci_QuitEpoch c = 0 \<Longrightarrow>
    staker_total s + v \<le> maxTotalStake \<Longrightarrow> si_FeeRate s \<noteq> 10000 \<Longrightarrow>
    MinValidatorStake \<le> si_Amount s + sum_list (map pi_Amount (si_Partners s)) \<Longrightarrow>
    sum_list (map ci_Amount (si_Clients s)) + v \<le> MaxTimeDelegate * (si_Amount s + sum_list (map pi_Amount (si_Partners s))) \<Longrightarrow>
    csc_step e caller v True (Some s) (s\<lparr>si_Clients := map (add_delegation caller v) (si_Clients s)\<rparr>)"
| delegate_new: "caller \<notin> ci_Address ` set (si_Clients s) \<Longrightarrow> minDelegatorStake \<le> v \<Longrightarrow>
    staker_total s + v \<le> maxTotalStake \<Longrightarrow> si_FeeRate s \<noteq> 10000 \<Longrightarrow>
    MinValidatorStake \<le> si_Amount s + sum_list (map pi_Amount (si_Partners s)) \<Longrightarrow>
    sum_list (map ci_Amount (si_Clients s)) + v \<le> MaxTimeDelegate * (si_Amount s + sum_list (map pi_Amount (si_Partners s))) \<Longrightarrow>
    csc_step e caller v True (Some s) (s\<lparr>si_Clients := si_Clients s @
      [\<lparr>ci_Address = caller, ci_Amount = v, ci_StakeAmount = v * sint (CalLocktimeWeight PSMinEpochNum), ci_QuitEpoch = 0\<rparr>]\<rparr>)"
| delegate_out: "si_Clients s = pre @ c # post \<Longrightarrow> ci_Address c = caller \<Longrightarrow> ci_QuitEpoch c = 0 \<Longrightarrow>
    csc_step e caller v False (Some s) (s\<lparr>si_Clients := pre @ c\<lparr>ci_QuitEpoch := e + QuitDelay\<rparr> # post\<rparr>)"

inductive_cases csc_step_NoneE: "csc_step e caller v paid None s'"

section \<open>The specification keeps the records well-formed\<close>

lemma weight_value:
  assumes "0 < rle" and "rle \<le> 90"
  shows "sint (CalLocktimeWeight (word_of_int rle)) = 960 + 6 * rle"
proof -
  obtain n where n: "rle = int n" "0 < n" "n \<le> 90"
    using assms by (metis nonneg_int_cases of_nat_0_less_iff of_nat_le_iff of_nat_numeral order_less_le)
  have "(word_of_int rle :: uint64) \<noteq> 0" using n by (simp add: n(1) word_unat_eq_iff unat_of_nat)
  moreover have "960 + word_of_int rle * 6 = (word_of_int (int (960 + n * 6)) :: uint64)" by (simp add: n(1))
  moreover have "sint (word_of_int (int (960 + n * 6)) :: uint64) = int (960 + n * 6)"
    unfolding sint_sbintrunc' using n by (intro signed_take_bit_int_eq_self) simp_all
  ultimately show ?thesis using n by (simp add: CalLocktimeWeight_def)
qed

lemma weight_bounds:
  assumes "0 \<le> rle" and "rle \<le> 90"
  shows "0 < sint (CalLocktimeWeight (word_of_int rle))" "sint (CalLocktimeWeight (word_of_int rle)) \<le> 1500"
  using assms weight_value [of rle] by (cases "rle = 0"; simp add: CalLocktimeWeight_def PSMinEpochNum_def)+

lemma client_weight: "sint (CalLocktimeWeight PSMinEpochNum) = 1002"
  by (simp add: CalLocktimeWeight_def PSMinEpochNum_def)

lemma sum_map_update:
  fixes v :: int
  assumes "distinct (map k xs)" and "a \<in> k ` set xs" and "\<And>x. k x = a \<Longrightarrow> f (g x) = f x + v" and "\<And>x. k x \<noteq> a \<Longrightarrow> f (g x) = f x"
  shows "sum_list (map f (map g xs)) = sum_list (map f xs) + v"
  using assms(1,2)
proof (induction xs)
  case (Cons x xs)
  show ?case
  proof (cases "k x = a")
    case True
    with Cons.prems(1) have "a \<notin> k ` set xs" by auto
    then have "sum_list (map (f \<circ> g) xs) = sum_list (map f xs)"
      using assms(4) by (intro arg_cong [of _ _ sum_list]) (auto simp: image_iff)
    with True assms(3) [OF True] show ?thesis by simp
  next
    case False
    with Cons have "sum_list (map f (map g xs)) = sum_list (map f xs) + v" by auto
    with False assms(4) [OF False] show ?thesis by simp
  qed
qed simp

text \<open>The change of the total of a validator.\<close>

definition total_of :: "StakerInfo option \<Rightarrow> int" where
  "total_of so = (case so of None \<Rightarrow> 0 | Some s \<Rightarrow> staker_total s)"

lemma csc_step_total:
  assumes "csc_step e caller v paid so s'" and "0 \<le> v" and "\<And>s. so = Some s \<Longrightarrow> staker_ok s"
  shows "staker_total s' = total_of so + (if paid then v else 0)"
  using assms
proof cases
  case (partner_more s rle wt rn)
  have "distinct (map pi_Address (si_Partners s))" using assms(3) [OF partner_more(2)] by (simp add: staker_ok_def)
  from sum_map_update [OF this partner_more(4), where f = pi_Amount and v = v] show ?thesis
    unfolding partner_more(3) by (simp add: partner_more(1,2) total_of_def staker_total_def)
next
  case (delegate_more s)
  have "distinct (map ci_Address (si_Clients s))" using assms(3) [OF delegate_more(2)] by (simp add: staker_ok_def)
  from sum_map_update [OF this delegate_more(4), where f = ci_Amount and v = v and g = "add_delegation caller v"] show ?thesis
    unfolding delegate_more(3) by (simp add: delegate_more(1,2) total_of_def staker_total_def add_delegation_def)
qed (simp_all add: total_of_def staker_total_def)


lemma weighted:
  fixes v wt :: int
  assumes "0 \<le> v" and "0 < wt" and "wt \<le> 1500"
  shows "0 \<le> v * wt" "v * wt \<le> 1500 * v"
  using assms mult_left_mono [of wt 1500 v] by (simp_all add: mult.commute)

lemma csc_step_ok:
  assumes "csc_step e caller v paid so s'" and "0 \<le> v" and "\<And>s. so = Some s \<Longrightarrow> staker_ok s"
  shows "staker_ok s'"
  using assms(1)
proof cases
  case (stake_in l fee pk bn a se)
  have l: "0 \<le> uint l" "uint l \<le> 90" using stake_in(6) by (simp_all add: lock_ok_def word_le_def)
  note w = weighted [OF assms(2) weight_bounds [OF l]]
  show ?thesis unfolding stake_in(3) using stake_in w
    by (simp add: staker_ok_def staker_total_def MaxTimeDelegate_def minStakeholderStake_def ether_def)
next
  case (stake_append s rle wt sa)
  note ok = assms(3) [OF stake_append(2)]
  note w = weight_bounds [OF stake_append(5,6)]
  have v: "0 \<le> v * wt" "v * wt \<le> 1500 * v" unfolding stake_append(8) by (rule weighted [OF assms(2) w])+
  have "0 \<le> si_Amount s + v" using ok_amounts(5) [OF ok] assms(2) by simp
  from weighted [OF this w] have a: "0 \<le> (si_Amount s + v) * wt" "(si_Amount s + v) * wt \<le> 1500 * (si_Amount s + v)"
    unfolding stake_append(8) by simp_all
  have "0 \<le> sa \<and> sa \<le> 1500 * (si_Amount s + v)" using stake_append(9) v a ok by (auto simp: staker_ok_def)
  then show ?thesis unfolding stake_append(3) using ok assms(2) stake_append(7)
    by (simp add: staker_ok_def staker_total_def MaxTimeDelegate_def)
next
  case (stake_update s l)
  then show ?thesis using assms(3) [OF stake_update(2)] by (simp add: staker_ok_def staker_total_def)
next
  case (fee_update s fee)
  then show ?thesis using assms(3) [OF fee_update(2)] by (simp add: staker_ok_def staker_total_def)
next
  case (partner_more s rle wt rn)
  note ok = assms(3) [OF partner_more(2)]
  let ?g = "\<lambda>p. if pi_Address p = caller
      then p\<lparr>pi_Amount := pi_Amount p + v, pi_StakeAmount := pi_StakeAmount p + v * wt, pi_Renewal := rn\<rparr> else p"
  have d: "distinct (map pi_Address (si_Partners s))" using ok by (simp add: staker_ok_def)
  have t: "sum_list (map pi_Amount (map ?g (si_Partners s))) = sum_list (map pi_Amount (si_Partners s)) + v"
    by (rule sum_map_update [OF d partner_more(4)]) simp_all
  have v: "0 \<le> v * wt" "v * wt \<le> 1500 * v" unfolding partner_more(8)
    by (rule weighted [OF assms(2) weight_bounds [OF partner_more(6,7)]])+
  have "list_all partner_ok (map ?g (si_Partners s))"
    using ok v assms(2) by (auto simp: staker_ok_def list_all_iff partner_ok_def)
  moreover have "map pi_Address (map ?g (si_Partners s)) = map pi_Address (si_Partners s)" by simp
  ultimately show ?thesis unfolding partner_more(3) using ok t partner_more(5) assms(2)
    by (simp add: staker_ok_def staker_total_def MaxTimeDelegate_def del: map_map)
next
  case (partner_new s rle rn se)
  note ok = assms(3) [OF partner_new(2)]
  note v = weighted [OF assms(2) weight_bounds [OF partner_new(7,8)]]
  show ?thesis unfolding partner_new(3) using ok partner_new(4-6) v assms(2)
    by (simp add: staker_ok_def staker_total_def MaxTimeDelegate_def partner_ok_def)
next
  case (delegate_more s)
  note ok = assms(3) [OF delegate_more(2)]
  let ?g = "add_delegation caller v"
  have d: "distinct (map ci_Address (si_Clients s))" using ok by (simp add: staker_ok_def)
  have t: "sum_list (map ci_Amount (map ?g (si_Clients s))) = sum_list (map ci_Amount (si_Clients s)) + v"
    by (rule sum_map_update [OF d delegate_more(4)]) (simp_all add: add_delegation_def)
  have "list_all client_ok (map ?g (si_Clients s))"
    using ok assms(2) by (auto simp: staker_ok_def list_all_iff client_ok_def add_delegation_def client_weight)
  moreover have "map ci_Address (map ?g (si_Clients s)) = map ci_Address (si_Clients s)" by (simp add: add_delegation_def)
  ultimately show ?thesis unfolding delegate_more(3) using ok t delegate_more(6,9)
    by (simp add: staker_ok_def staker_total_def del: map_map)
next
  case (delegate_new s)
  note ok = assms(3) [OF delegate_new(2)]
  show ?thesis unfolding delegate_new(3) using ok delegate_new(4-9)
    by (simp add: staker_ok_def staker_total_def client_ok_def client_weight)
next
  case (delegate_out s pre c post)
  note ok = assms(3) [OF delegate_out(2)]
  show ?thesis unfolding delegate_out(3) using ok delegate_out(4)
    by (simp add: staker_ok_def staker_total_def client_ok_def)
qed


section \<open>Handlers refine the specification\<close>

text \<open>Inversion of successful state operations.\<close>

lemma wbind_Inr: "wbind m k w = (Inr r, w') \<longleftrightarrow> (\<exists>x w1. m w = (Inr x, w1) \<and> k x w1 = (Inr r, w'))"
  by (auto simp: wbind_def split: prod.splits sum.splits)

lemma wthen_Inr: "wthen m k w = (Inr r, w') \<longleftrightarrow> (\<exists>w1. m w = (Inr (), w1) \<and> k w1 = (Inr r, w'))"
  by (auto simp: wthen_def wbind_Inr)

lemma wcheck_Inr: "wcheck b msg w = (Inr x, w') \<longleftrightarrow> \<not> b \<and> w' = w"
  by (auto simp: wop_defs)

lemma wlift_Inr: "wlift m w = (Inr x, w') \<longleftrightarrow> m = Inr x \<and> w' = w"
  by (auto simp: wop_defs)

lemma wret_Inr: "wret y w = (Inr x, w') \<longleftrightarrow> x = y \<and> w' = w"
  by (auto simp: wop_defs)

lemmas wop_Inr = wbind_Inr wthen_Inr wcheck_Inr wlift_Inr wret_Inr getStakeInfo_stakers

text \<open>Logging touches neither records nor balances.\<close>

definition quiet :: "unit wop \<Rightarrow> bool" where
  "quiet m = (\<forall>w. \<exists>w1. m w = (Inr (), w1) \<and> stakers w1 = stakers w \<and> fee_records w1 = fee_records w \<and>
     (\<forall>b. wGetBalance b w1 = wGetBalance b w))"

lemma quiet_addLog [simp]: "quiet (precompiledScAddLog ctx a e ts d)"
  by (simp add: quiet_def precompiledScAddLog_def wmodify_def)

lemma quiet_ret [simp]: "quiet (wret ())"
  by (simp add: quiet_def wret_def)

lemma quiet_logs [simp]:
  "quiet (stakeRegisterLog c ctx s m)" "quiet (stakeInLog c ctx s)" "quiet (stakeAppendLog c ctx a)"
  "quiet (stakeUpdateLog c ctx s)" "quiet (delegateInLog c ctx a)" "quiet (delegateOutLog c ctx a)"
  "quiet (stakeUpdateFeeRateLog c ctx u)" "quiet (partnerInLog c ctx a rn)"
  by (simp_all add: stakeRegisterLog_def stakeInLog_def stakeAppendLog_def stakeUpdateLog_def delegateInLog_def
      delegateOutLog_def stakeUpdateFeeRateLog_def partnerInLog_def)

lemma quietD:
  assumes "quiet m" and "m w = (Inr (), w1)"
  shows "stakers w1 = stakers w" "fee_records w1 = fee_records w" "wGetBalance b w1 = wGetBalance b w"
  using assms by (auto simp: quiet_def dest!: spec [of _ w])

text \<open>The records of a state are all well-formed.\<close>

definition csc_inv :: "world \<Rightarrow> bool" where
  "csc_inv w = (\<forall>a s. stakers w a = Some s \<longrightarrow> kept a s)"

text \<open>One step of the specification on the validators of a state; balances stay.\<close>

definition spec_step :: "uint64 \<Rightarrow> address \<Rightarrow> int \<Rightarrow> bool \<Rightarrow> world \<Rightarrow> world \<Rightarrow> bool" where
  "spec_step e caller v paid w w' =
     (\<exists>a s'. si_Address s' = a \<and> csc_step e caller v paid (stakers w a) s' \<and> stakers w' = (stakers w)(a \<mapsto> s') \<and>
        (\<forall>b. wGetBalance b w' = wGetBalance b w))"

lemma saved_step:
  assumes "csc_inv w" and "0 \<le> v" and "csc_step e caller v paid (stakers w a) s'" and "si_Address s' = a"
    and "saveStakeInfo db s' w = (Inr (), w1)" and "stakers w' = stakers w1" and "\<And>b. wGetBalance b w' = wGetBalance b w1"
  shows "spec_step e caller v paid w w'"
proof -
  have "staker_ok s'"
    by (rule csc_step_ok [OF assms(3,2)]) (use assms(1) in \<open>auto simp: csc_inv_def kept_def\<close>)
  then have "kept a s'" using assms(4) by (simp add: kept_def)
  from staker_table.save_cases [OF this assms(5)] have "stakers w1 = (stakers w)(a \<mapsto> s')" "\<And>b. wGetBalance b w1 = wGetBalance b w"
    by blast+
  with assms(3,4,6,7) show ?thesis unfolding spec_step_def by (intro exI [of _ a] exI [of _ s']) simp
qed

text \<open>Parameters.\<close>

lemma lock_ok_big: "7 \<le> x \<Longrightarrow> x \<le> 90 \<Longrightarrow> lock_ok (big_Uint64 x)"
  by (simp add: lock_ok_def word_le_def big_Uint64_def uint_word_of_int)

lemma stakeUpdate_params:
  "stakeUpdateParseAndValid payload = Inr info \<Longrightarrow>
     big_Uint64 (sup_LockEpochs info) = 0 \<or> lock_ok (big_Uint64 (sup_LockEpochs info))"
  using lock_ok_big [of "sup_LockEpochs info"]
  by (auto simp: stakeUpdateParseAndValid_def minEpochNum_def maxEpochNum_def
      split: sum.splits list.splits abi_value.splits if_splits)

definition stake_params_ok :: "StakeInParam \<Rightarrow> bool" where
  "stake_params_ok info =
     (lock_ok (big_Uint64 (sip_LockEpochs info)) \<and> big_Uint64 (sip_FeeRate info) \<le> 10000 \<and>
      (\<exists>pk bn pub. SecPk info = Some pk \<and> length pk = 65 \<and> Bn256Pk info = Some bn \<and> length bn < 2 ^ 63 \<and>
         sip_pub info = Some pub))"

lemma fee_ok_big: "0 \<le> x \<Longrightarrow> x \<le> 10000 \<Longrightarrow> big_Uint64 x \<le> 10000"
  by (simp add: word_le_def big_Uint64_def uint_word_of_int)

lemma doStakeIn_params:
  assumes "doStakeInParseAndValid env info = Inr info'" and "\<And>bn. Bn256Pk info = Some bn \<Longrightarrow> length bn < 2 ^ 63"
  shows "stake_params_ok info'"
  using assms lock_ok_big [of "sip_LockEpochs info"] fee_ok_big [of "sip_FeeRate info"]
  by (auto simp: doStakeInParseAndValid_def stake_params_ok_def ToECDSAPub_def minEpochNum_def maxEpochNum_def
      maxFeeRate_def minFeeRate_def split: option.splits if_splits)

lemma second_bytes_short:
  "UnpackInput (BytesTy # BytesTy # ts) payload = Inr (VBytes a # VBytes b # vs) \<Longrightarrow> length b < 2 ^ 63"
  using toGoType_BytesTy_short [of 32 payload b]
  by (auto simp: UnpackInput_def UnpackValues_def simp del: toGoType.simps split: if_splits sum.splits)

lemma stakeIn_params: "stakeInParseAndValid env payload = Inr info \<Longrightarrow> stake_params_ok info"
  using second_bytes_short [of "[UintTy 256, UintTy 256]" payload]
  by (auto simp: stakeInParseAndValid_def elim!: doStakeIn_params
      split: sum.splits list.splits abi_value.splits)

lemma stakeRegister_params:
  "stakeRegisterParseAndValid env payload = Inr info \<Longrightarrow> stake_params_ok (srp_StakeInParam info)"
  using second_bytes_short [of "[UintTy 256, UintTy 256, UintTy 256]" payload]
  by (auto simp: stakeRegisterParseAndValid_def elim!: doStakeIn_params
      split: sum.splits list.splits abi_value.splits if_splits)


text \<open>Each handler, when it succeeds.\<close>

lemma kept_address: "csc_inv w \<Longrightarrow> stakers w a = Some s \<Longrightarrow> si_Address s = a"
  by (auto simp: csc_inv_def kept_def)

lemma StakeUpdate_refines:
  assumes "csc_inv w" and "0 \<le> con_value c" and "StakeUpdate payload c ctx w = (Inr r, w')"
  shows "spec_step (epoch_now ctx) (CallerAddress c) (con_value c) False w w'"
proof -
  obtain info s w1 where h: "stakeUpdateParseAndValid payload = Inr info" "stakers w (sup_Addr info) = Some s"
      "CallerAddress c = si_From s"
      "saveStakeInfo (ctx_db ctx) (s\<lparr>si_NextLockEpochs := big_Uint64 (sup_LockEpochs info)\<rparr>) w = (Inr (), w1)"
      "stakeUpdateLog c ctx (s\<lparr>si_NextLockEpochs := big_Uint64 (sup_LockEpochs info)\<rparr>) w1 = (Inr (), w')"
    using assms(3) by (auto simp: StakeUpdate_def wop_Inr Let_def)
  have "csc_step (epoch_now ctx) (CallerAddress c) (con_value c) False (stakers w (sup_Addr info))
      (s\<lparr>si_NextLockEpochs := big_Uint64 (sup_LockEpochs info)\<rparr>)"
    unfolding h(2) by (rule csc_step.stake_update [OF h(3) stakeUpdate_params [OF h(1)]])
  from saved_step [OF assms(1,2) this _ h(4) quietD(1) [OF quiet_logs(4) h(5)] quietD(3) [OF quiet_logs(4) h(5)]] kept_address [OF assms(1) h(2)]
  show ?thesis by simp
qed

lemma StakeAppend_refines:
  assumes "csc_inv w" and "0 \<le> con_value c" and "StakeAppend env payload c ctx w = (Inr r, w')"
  shows "spec_step (epoch_now ctx) (CallerAddress c) (con_value c) True w w'"
proof -
  let ?wt = "\<lambda>s. sint (CalLocktimeWeight (word_of_int (realLockEpoch ctx s)))"
  let ?s1 = "\<lambda>s. s\<lparr>si_Amount := si_Amount s + con_value c,
     si_StakeAmount := (if epoch_now ctx < VenusEpochId env then (si_Amount s + con_value c) * ?wt s
        else si_StakeAmount s + con_value c * ?wt s)\<rparr>"
  obtain a s w1 where h: "stakers w a = Some s" "CallerAddress c = si_From s"
      "0 \<le> realLockEpoch ctx s" "realLockEpoch ctx s \<le> PSMaxEpochNum"
      "si_Amount s + con_value c + sum_list (map ci_Amount (si_Clients s)) + sum_list (map pi_Amount (si_Partners s)) \<le> maxTotalStake"
      "saveStakeInfo (ctx_db ctx) (?s1 s) w = (Inr (), w1)" "stakeAppendLog c ctx (si_Address (?s1 s)) w1 = (Inr (), w')"
    using assms(3) by (auto simp: StakeAppend_def wop_Inr Let_def not_less simp del: StakerInfo.simps)
  have "csc_step (epoch_now ctx) (CallerAddress c) (con_value c) True (stakers w a) (?s1 s)"
    unfolding h(1)
  proof (rule csc_step.stake_append [OF h(2,3) _ _ refl])
    show "realLockEpoch ctx s \<le> 90" using h(4) by (simp add: PSMaxEpochNum_def)
    show "staker_total s + con_value c \<le> maxTotalStake" using h(5) by (simp add: staker_total_def)
  qed (cases "epoch_now ctx < VenusEpochId env", simp_all only: if_True if_False simp_thms)
  from saved_step [OF assms(1,2) this _ h(6) quietD(1) [OF quiet_logs(3) h(7)] quietD(3) [OF quiet_logs(3) h(7)]] kept_address [OF assms(1) h(1)]
  show ?thesis by simp
qed

lemma doStakeIn_step:
  assumes "csc_inv w" and "0 \<le> con_value c" and "stake_params_ok info" and "doStakeIn env c ctx info w = (Inr s, w')"
  shows "csc_step (epoch_now ctx) (CallerAddress c) (con_value c) True (stakers w (si_Address s)) s \<and>
    saveStakeInfo (ctx_db ctx) s w = (Inr (), w')"
proof -
  obtain pk bn pub where i: "SecPk info = Some pk" "length pk = 65" "Bn256Pk info = Some bn" "length bn < 2 ^ 63"
      "sip_pub info = Some pub" "lock_ok (big_Uint64 (sip_LockEpochs info))" "big_Uint64 (sip_FeeRate info) \<le> 10000"
    using assms(3) by (auto simp: stake_params_ok_def)
  define ad where "ad = PubkeyToAddress (ctx_db ctx) pub"
  let ?old = "case GetInfo StakersInfoAddr (GetStakeInKeyHash ad) w of (Inl _, _) \<Rightarrow> [] | (Inr b, _) \<Rightarrow> b"
  let ?s = "\<lparr>si_Address = ad, si_PubSec256 = pk, si_PubBn256 = bn, si_Amount = con_value c,
       si_StakeAmount = con_value c * sint (CalLocktimeWeight (big_Uint64 (sip_LockEpochs info))),
       si_LockEpochs = big_Uint64 (sip_LockEpochs info), si_NextLockEpochs = big_Uint64 (sip_LockEpochs info),
       si_From = CallerAddress c, si_StakingEpoch = (if FirstEpochId env = 0 then 0 else epoch_now ctx + JoinDelay),
       si_FeeRate = big_Uint64 (sip_FeeRate info), si_Clients = [], si_Partners = []\<rparr>"
  have h: "s = ?s" "saveStakeInfo (ctx_db ctx) ?s w = (Inr (), w')" "?old = []"
      "minStakeholderStake \<le> con_value c" "con_value c \<le> maxTotalStake"
    using assms(4) by (auto simp: doStakeIn_def wop_Inr Let_def i ad_def not_less)
  have n: "stakers w ad = None"
    using h(3) by (simp add: stakers_def getStakeInfo_def Let_def split: if_splits)
  have "csc_step (epoch_now ctx) (CallerAddress c) (con_value c) True None ?s"
    by (rule csc_step.stake_in [OF h(4,5) i(6,7,2,4)])
  with h(1,2) n show ?thesis by simp
qed

lemma StakeIn_refines:
  assumes "csc_inv w" and "0 \<le> con_value c" and "StakeIn env payload c ctx w = (Inr r, w')"
  shows "spec_step (epoch_now ctx) (CallerAddress c) (con_value c) True w w'"
proof -
  obtain info s w1 where h: "stakeInParseAndValid env payload = Inr info" "doStakeIn env c ctx info w = (Inr s, w1)"
      "stakeInLog c ctx s w1 = (Inr (), w')"
    using assms(3) by (auto simp: StakeIn_def wop_Inr)
  note d = doStakeIn_step [OF assms(1,2) stakeIn_params [OF h(1)] h(2)]
  show ?thesis
    by (rule saved_step [OF assms(1,2) conjunct1 [OF d] refl conjunct2 [OF d] quietD(1) [OF quiet_logs(2) h(3)] quietD(3) [OF quiet_logs(2) h(3)]])
qed

lemma StakeRegister_refines:
  assumes "csc_inv w" and "0 \<le> con_value c" and "StakeRegister env payload c ctx w = (Inr r, w')"
  shows "spec_step (epoch_now ctx) (CallerAddress c) (con_value c) True w w'"
proof -
  obtain info s w1 u m w2 where h: "stakeRegisterParseAndValid env payload = Inr info"
      "doStakeIn env c ctx (srp_StakeInParam info) w = (Inr s, w1)"
      "saveStakeFeeRate (ctx_db ctx) u (si_Address s) w1 = (Inr (), w2)" "stakeRegisterLog c ctx s m w2 = (Inr (), w')"
    using assms(3) by (auto simp: StakeRegister_def wop_Inr Let_def)
  note d = doStakeIn_step [OF assms(1,2) stakeRegister_params [OF h(1)] h(2)]
  have f: "stakers w2 = stakers w1" "\<And>b. wGetBalance b w2 = wGetBalance b w1"
    using h(3) by (auto simp: saveStakeFeeRate_eq split: if_splits)
  show ?thesis
    by (rule saved_step [OF assms(1,2) conjunct1 [OF d] refl conjunct2 [OF d]])
      (use quietD(1) [OF quiet_logs(1) h(4)] quietD(3) [OF quiet_logs(1) h(4)] f in simp_all)
qed

lemma DelegateOut_refines:
  assumes "csc_inv w" and "0 \<le> con_value c" and "DelegateOut payload c ctx w = (Inr r, w')"
  shows "spec_step (epoch_now ctx) (CallerAddress c) (con_value c) False w w'"
proof -
  obtain a s cs w1 where h: "stakers w a = Some s"
      "quit_loop (CallerAddress c) (epoch_now ctx + QuitDelay) (si_Clients s) = Inr cs"
      "saveStakeInfo (ctx_db ctx) (s\<lparr>si_Clients := cs\<rparr>) w = (Inr (), w1)"
      "delegateOutLog c ctx (si_Address s) w1 = (Inr (), w')"
    using assms(3) by (auto simp: DelegateOut_def wop_Inr Let_def)
  from quit_loop_Inr [OF h(2)] obtain pre d post where q: "si_Clients s = pre @ d # post" "ci_Address d = CallerAddress c"
      "ci_QuitEpoch d = 0" "cs = pre @ d\<lparr>ci_QuitEpoch := epoch_now ctx + QuitDelay\<rparr> # post" by blast
  have "csc_step (epoch_now ctx) (CallerAddress c) (con_value c) False (stakers w a) (s\<lparr>si_Clients := cs\<rparr>)"
    unfolding h(1) q(4) by (rule csc_step.delegate_out [OF q(1-3)])
  from saved_step [OF assms(1,2) this _ h(3) quietD(1) [OF quiet_logs(6) h(4)] quietD(3) [OF quiet_logs(6) h(4)]] kept_address [OF assms(1) h(1)]
  show ?thesis by simp
qed

lemma DelegateIn_refines:
  assumes "csc_inv w" and "0 \<le> con_value c" and "DelegateIn payload c ctx w = (Inr r, w')"
  shows "spec_step (epoch_now ctx) (CallerAddress c) (con_value c) True w w'"
proof -
  let ?cl = "CallerAddress c" and ?v = "con_value c"
  let ?s1 = "\<lambda>s. if ?cl \<in> ci_Address ` set (si_Clients s) then s\<lparr>si_Clients := map (add_delegation ?cl ?v) (si_Clients s)\<rparr>
    else s\<lparr>si_Clients := map (add_delegation ?cl ?v) (si_Clients s) @
      [\<lparr>ci_Address = ?cl, ci_Amount = ?v, ci_StakeAmount = ?v * sint (CalLocktimeWeight PSMinEpochNum), ci_QuitEpoch = 0\<rparr>]\<rparr>"
  obtain a s w1 where h: "stakers w a = Some s" "si_FeeRate s \<noteq> big_Uint64 noDelegateFeeRate"
      "MinValidatorStake \<le> si_Amount s + sum_list (map pi_Amount (si_Partners s))"
      "\<forall>d\<in>set (si_Clients s). ci_Address d = ?cl \<longrightarrow> ci_QuitEpoch d = 0"
      "?v + sum_list (map ci_Amount (si_Clients s)) + (si_Amount s + sum_list (map pi_Amount (si_Partners s))) \<le> maxTotalStake"
      "?v + sum_list (map ci_Amount (si_Clients s)) \<le> (si_Amount s + sum_list (map pi_Amount (si_Partners s))) * MaxTimeDelegate"
      "?cl \<in> ci_Address ` set (si_Clients s) \<or> minDelegatorStake \<le> ?v"
      "saveStakeInfo (ctx_db ctx) (?s1 s) w = (Inr (), w1)" "delegateInLog c ctx (si_Address (?s1 s)) w1 = (Inr (), w')"
    using assms(3) by (auto simp: DelegateIn_def wop_Inr Let_def delegate_loop_eq not_less split: if_splits)
  have fee: "si_FeeRate s \<noteq> 10000" using h(2) by (simp add: big_Uint64_def noDelegateFeeRate_def)
  have "csc_step (epoch_now ctx) ?cl ?v True (stakers w a) (?s1 s)"
  proof (cases "?cl \<in> ci_Address ` set (si_Clients s)")
    case True
    then show ?thesis unfolding h(1) using csc_step.delegate_more [OF True h(4) _ fee h(3), of ?v "epoch_now ctx"] h(5,6)
      by (simp add: staker_total_def algebra_simps)
  next
    case False
    then have "map (add_delegation ?cl ?v) (si_Clients s) = si_Clients s"
      by (auto simp: add_delegation_def image_iff intro!: map_idI)
    then show ?thesis
      unfolding h(1) using csc_step.delegate_new [OF False, of ?v "epoch_now ctx"] fee h(3,5,6,7) False
      by (simp add: staker_total_def algebra_simps)
  qed
  from saved_step [OF assms(1,2) this _ h(8) quietD(1) [OF quiet_logs(5) h(9)] quietD(3) [OF quiet_logs(5) h(9)]] kept_address [OF assms(1) h(1)]
  show ?thesis by (simp split: if_splits)
qed


lemma addPartner_step:
  assumes "addPartner env c ctx rn s = Inr s1"
  shows "csc_step (epoch_now ctx) (CallerAddress c) (con_value c) True (Some s) s1"
proof -
  let ?cl = "CallerAddress c" and ?v = "con_value c"
  let ?wt = "CalLocktimeWeight (word_of_int (realLockEpoch ctx s))"
  obtain t fnd ps where pl: "partner_loop ?cl ?v ?wt rn
      (si_Amount s + sum_list (map ci_Amount (si_Clients s)) + ?v) (si_Partners s) = (t, fnd, ps)"
    by (cases "partner_loop ?cl ?v ?wt rn (si_Amount s + sum_list (map ci_Amount (si_Clients s)) + ?v) (si_Partners s)") auto
  have h: "0 \<le> realLockEpoch ctx s" "realLockEpoch ctx s \<le> 90" "t \<le> maxTotalStake"
    using assms by (auto simp: addPartner_def Let_def pl PSMaxEpochNum_def split: if_splits)
  then have t: "staker_total s + ?v \<le> maxTotalStake" using pl by (simp add: partner_loop_eq staker_total_def)
  show ?thesis
  proof (cases fnd)
    case True
    then have f: "?cl \<in> pi_Address ` set (si_Partners s)" using pl by (simp add: partner_loop_eq)
    have "s1 = s\<lparr>si_Partners := ps\<rparr>" using assms True by (auto simp: addPartner_def Let_def pl split: if_splits)
    moreover have "csc_step (epoch_now ctx) ?cl ?v True (Some s) (s\<lparr>si_Partners := ps\<rparr>)"
      using csc_step.partner_more [OF f t h(1,2) refl, where e = "epoch_now ctx" and rn = rn] pl by (simp add: partner_loop_eq)
    ultimately show ?thesis by simp
  next
    case False
    then have n: "?cl \<notin> pi_Address ` set (si_Partners s)" using pl by (simp add: partner_loop_eq)
    then have "ps = si_Partners s" using pl by (auto simp: partner_loop_eq image_iff intro!: map_idI)
    moreover have "length (si_Partners s) < maxPartners"
      and "s1 = s\<lparr>si_Partners := ps @ [\<lparr>pi_Address = ?cl, pi_Amount = ?v, pi_StakeAmount = ?v * sint ?wt, pi_Renewal = rn,
         pi_LockEpochs = word_of_int (realLockEpoch ctx s),
         pi_StakingEpoch = (if FirstEpochId env = 0 then 0 else epoch_now ctx + JoinDelay)\<rparr>]\<rparr>"
      using assms False by (auto simp: addPartner_def Let_def pl split: if_splits)
    ultimately show ?thesis
      using csc_step.partner_new [OF n _ t h(1,2), where e = "epoch_now ctx" and rn = rn] by simp
  qed
qed

lemma csc_step_address: "csc_step e caller v paid (Some s) s' \<Longrightarrow> si_Address s' = si_Address s"
  by (erule csc_step.cases) simp_all

lemma PartnerIn_refines:
  assumes "csc_inv w" and "0 \<le> con_value c" and "PartnerIn env payload c ctx w = (Inr r, w')"
  shows "spec_step (epoch_now ctx) (CallerAddress c) (con_value c) True w w'"
proof -
  obtain info :: PartnerInParam and s s1 w1 where h: "stakers w (pip_Addr info) = Some s" "addPartner env c ctx (pip_Renewal info) s = Inr s1"
      "saveStakeInfo (ctx_db ctx) s1 w = (Inr (), w1)" "partnerInLog c ctx (pip_Addr info) (pip_Renewal info) w1 = (Inr (), w')"
    using assms(3) by (auto simp: PartnerIn_def wop_Inr)
  note st = addPartner_step [OF h(2)]
  show ?thesis
    by (rule saved_step [OF assms(1,2) st [folded h(1)] _ h(3) quietD(1) [OF quiet_logs(8) h(4)] quietD(3) [OF quiet_logs(8) h(4)]])
      (use csc_step_address [OF st] kept_address [OF assms(1) h(1)] in simp)
qed

lemma updateFeeRate_params: "updateFeeRateParseAndValid payload = Inr info \<Longrightarrow> big_Uint64 (ufp_FeeRate info) \<le> 10000"
  using fee_ok_big [of "ufp_FeeRate info"]
  by (auto simp: updateFeeRateParseAndValid_def maxFeeRate_def minFeeRate_def split: sum.splits list.splits abi_value.splits if_splits)

text \<open>What a successful fee update has checked and saved.\<close>

lemma StakeUpdateFeeRate_Inr:
  assumes "StakeUpdateFeeRate payload c ctx w = (Inr r, w')"
  obtains info s fee old u w1 w2 where "updateFeeRateParseAndValid payload = Inr info" and "stakers w (ufp_Addr info) = Some s"
    and "fee = big_Uint64 (ufp_FeeRate info)" and "CallerAddress c = si_From s" and "si_FeeRate s \<noteq> 10000"
    and "fee \<le> 10000" and "fee \<noteq> 10000" and "fee \<noteq> si_FeeRate s" and "fee \<le> si_FeeRate s + 100"
    and "fst (getStakeFeeRate (si_Address s) w) = Inr old" and "\<And>x. old = Some x \<Longrightarrow> uf_ChangedEpoch x \<noteq> epoch_now ctx"
    and "\<And>x. old = Some x \<Longrightarrow> fee \<le> uf_MaxFeeRate x \<and> u = x\<lparr>uf_FeeRate := fee, uf_ChangedEpoch := epoch_now ctx\<rparr>"
    and "old = None \<Longrightarrow> fee \<le> si_FeeRate s \<and> uf_MaxFeeRate u = si_FeeRate s"
    and "uf_FeeRate u = fee" and "uf_ChangedEpoch u = epoch_now ctx"
    and "saveStakeInfo (ctx_db ctx) (s\<lparr>si_FeeRate := fee\<rparr>) w = (Inr (), w1)"
    and "saveStakeFeeRate (ctx_db ctx) u (si_Address s) w1 = (Inr (), w2)" and "stakeUpdateFeeRateLog c ctx u w2 = (Inr (), w')"
proof -
  have g: "getStakeFeeRate a w = (Inr x, w1) \<longleftrightarrow> w1 = w \<and> fst (getStakeFeeRate a w) = Inr x" for a x w1
    by (auto simp: getStakeFeeRate_def GetInfo_def wop_defs split: if_splits sum.splits prod.splits)
  obtain info s old w1 w2 where h: "updateFeeRateParseAndValid payload = Inr info" "stakers w (ufp_Addr info) = Some s"
      "si_FeeRate s \<noteq> PSMaxFeeRate" "big_Uint64 (ufp_FeeRate info) \<noteq> PSMaxFeeRate" "si_FeeRate s \<noteq> big_Uint64 (ufp_FeeRate info)"
      "CallerAddress c = si_From s" "fst (getStakeFeeRate (si_Address s) w) = Inr old"
      "\<not> (case old of None \<Rightarrow> False | Some u \<Rightarrow> uf_ChangedEpoch u = epoch_now ctx)"
    and k: "let oldFee = (case old of
           None \<Rightarrow> \<lparr>uf_ValidatorAddr = si_Address s, uf_MaxFeeRate = si_FeeRate s, uf_FeeRate = si_FeeRate s,
                    uf_ChangedEpoch = epoch_now ctx\<rparr> | Some u \<Rightarrow> u);
         fee = big_Uint64 (ufp_FeeRate info); u = oldFee\<lparr>uf_FeeRate := fee, uf_ChangedEpoch := epoch_now ctx\<rparr>
       in \<not> uf_MaxFeeRate oldFee < fee \<and> \<not> si_FeeRate s + PSFeeRateStep < fee \<and>
          saveStakeInfo (ctx_db ctx) (s\<lparr>si_FeeRate := fee\<rparr>) w = (Inr (), w1) \<and>
          saveStakeFeeRate (ctx_db ctx) u (si_Address s) w1 = (Inr (), w2) \<and> stakeUpdateFeeRateLog c ctx u w2 = (Inr (), w')"
    using assms by (auto simp: StakeUpdateFeeRate_def wop_Inr Let_def g)
  note f = updateFeeRate_params [OF h(1)]
  show thesis
  proof (cases old)
    case None
    with h f k show thesis
      by (intro that [of info s "big_Uint64 (ufp_FeeRate info)" old
            "\<lparr>uf_ValidatorAddr = si_Address s, uf_MaxFeeRate = si_FeeRate s, uf_FeeRate = big_Uint64 (ufp_FeeRate info),
              uf_ChangedEpoch = epoch_now ctx\<rparr>" w1 w2])
        (simp_all add: Let_def not_less PSMaxFeeRate_def PSFeeRateStep_def)
  next
    case (Some x)
    with h f k show thesis
      by (intro that [of info s "big_Uint64 (ufp_FeeRate info)" old
            "x\<lparr>uf_FeeRate := big_Uint64 (ufp_FeeRate info), uf_ChangedEpoch := epoch_now ctx\<rparr>" w1 w2])
        (simp_all add: Let_def not_less PSMaxFeeRate_def PSFeeRateStep_def)
  qed
qed

lemma StakeUpdateFeeRate_refines:
  assumes "csc_inv w" and "0 \<le> con_value c" and "StakeUpdateFeeRate payload c ctx w = (Inr r, w')"
  shows "spec_step (epoch_now ctx) (CallerAddress c) (con_value c) False w w'"
proof (rule StakeUpdateFeeRate_Inr [OF assms(3)])
  fix info s fee old u w1 w2
  assume h: "stakers w (ufp_Addr info) = Some s" "CallerAddress c = si_From s" "si_FeeRate s \<noteq> 10000" "fee \<le> 10000" "fee \<noteq> 10000"
    "fee \<noteq> si_FeeRate s" "fee \<le> si_FeeRate s + 100" "saveStakeInfo (ctx_db ctx) (s\<lparr>si_FeeRate := fee\<rparr>) w = (Inr (), w1)"
    "saveStakeFeeRate (ctx_db ctx) u (si_Address s) w1 = (Inr (), w2)" "stakeUpdateFeeRateLog c ctx u w2 = (Inr (), w')"
  have "csc_step (epoch_now ctx) (CallerAddress c) (con_value c) False (stakers w (ufp_Addr info)) (s\<lparr>si_FeeRate := fee\<rparr>)"
    unfolding h(1) by (rule csc_step.fee_update [OF h(2,3) _ h(6,7)]) (use h(4,5) in simp)
  moreover have "stakers w2 = stakers w1" "\<And>b. wGetBalance b w2 = wGetBalance b w1"
    using h(9) by (auto simp: saveStakeFeeRate_eq split: if_splits)
  ultimately show ?thesis
    using saved_step [OF assms(1,2) _ _ h(8), where a = "ufp_Addr info" and w' = w'] kept_address [OF assms(1) h(1)]
      quietD(1) [OF quiet_logs(7) h(10)] quietD(3) [OF quiet_logs(7) h(10)] by simp
qed


text \<open>The methods whose coins are recorded, in the order of the dispatcher.\<close>

definition csc_payable :: "database \<Rightarrow> bytes \<Rightarrow> bool" where
  "csc_payable db input =
     (let m = take 4 input in
      m = method_id db stakeRegister_sig \<or> m = method_id db stakeIn_sig \<or>
      m \<noteq> method_id db stakeUpdate_sig \<and>
        (m = method_id db stakeAppend_sig \<or> m = method_id db partnerIn_sig \<or> m = method_id db delegateIn_sig))"

lemma csc_Run_step:
  assumes "csc_inv w" and "0 \<le> con_value c" and "csc_Run env ctx input c w = (Inr r, w')"
  shows "spec_step (epoch_now ctx) (CallerAddress c) (con_value c) (csc_payable (ctx_db ctx) input) w w'"
  using assms(3) StakeRegister_refines [OF assms(1,2)] StakeIn_refines [OF assms(1,2)] StakeUpdate_refines [OF assms(1,2)]
    StakeAppend_refines [OF assms(1,2)] PartnerIn_refines [OF assms(1,2)] DelegateIn_refines [OF assms(1,2)]
    DelegateOut_refines [OF assms(1,2)] StakeUpdateFeeRate_refines [OF assms(1,2)]
  by (auto simp: csc_Run_def Let_def csc_payable_def wfail_def split: if_splits)

lemma spec_step_inv:
  assumes "csc_inv w" and "0 \<le> v" and "spec_step e caller v paid w w'"
  shows "csc_inv w'"
proof -
  obtain s' where s: "csc_step e caller v paid (stakers w (si_Address s')) s'" "stakers w' = (stakers w)(si_Address s' \<mapsto> s')"
    using assms(3) by (auto simp: spec_step_def)
  have "staker_ok s'"
    by (rule csc_step_ok [OF s(1) assms(2)]) (use assms(1) in \<open>auto simp: csc_inv_def kept_def\<close>)
  with assms(1) s(2) show ?thesis by (simp add: csc_inv_def kept_def)
qed

definition total_stake :: "world \<Rightarrow> int" where
  "total_stake w = (\<Sum>a\<in>UNIV. total_of (stakers w a))"

lemma spec_step_total:
  assumes "csc_inv w" and "0 \<le> v" and "spec_step e caller v paid w w'"
  shows "total_stake w' = total_stake w + (if paid then v else 0)"
proof -
  obtain a s' where s: "csc_step e caller v paid (stakers w a) s'" "stakers w' = (stakers w)(a \<mapsto> s')"
    using assms(3) by (auto simp: spec_step_def)
  have "staker_total s' = total_of (stakers w a) + (if paid then v else 0)"
    by (rule csc_step_total [OF s(1) assms(2)]) (use assms(1) in \<open>auto simp: csc_inv_def kept_def\<close>)
  moreover have "total_stake w' = total_stake w - total_of (stakers w a) + total_of (Some s')"
    unfolding total_stake_def s(2) by (rule sum_fun_upd)
  ultimately show ?thesis by (simp add: total_of_def)
qed

text \<open>The recorded stakes are covered by the balance of the contract.\<close>

definition solvent :: "world \<Rightarrow> bool" where
  "solvent w = (total_stake w \<le> wGetBalance WanCscPrecompileAddr w)"

lemma stakers_wCreateAccount: "stakers (wCreateAccount db WanCscPrecompileAddr w) = stakers w"
  by (simp add: stakers_eq fun_eq_iff precompile_addrs wGetStateByteArray_def wCreateAccount_def)

text \<open>A call of the contract either changes nothing or runs it on the state with the coins transferred.\<close>

lemma Call_csc_cases:
  assumes "ev_precompiles ev WanCscPrecompileAddr = Some (PosStaking env)"
    and "Call interp ev caller WanCscPrecompileAddr input gas v w = (ret, g, err, w')" and "\<And>m. err \<noteq> Some (Panic m)"
  obtains "w' = w" and "err = None \<Longrightarrow> ev_NoRecursion ev"
  | c w1 w2 where "w1 = w \<or> w1 = wCreateAccount (ctx_db (ev_ctx ev)) WanCscPrecompileAddr w"
    and "w2 = Transfer (ctx_db (ev_ctx ev)) (ref_Address caller) WanCscPrecompileAddr v w1"
    and "CallerAddress c = ref_Address caller" and "con_value c = v" and "err = None"
    and "csc_Run env (ev_ctx ev) input c w2 = (Inr ret, w')"
proof -
  let ?db = "ctx_db (ev_ctx ev)"
  define w1 where "w1 = (if wExist WanCscPrecompileAddr w then w else wCreateAccount ?db WanCscPrecompileAddr w)"
  define w2 where "w2 = Transfer ?db (ref_Address caller) WanCscPrecompileAddr v w1"
  define c where "c = SetCallCode WanCscPrecompileAddr (wGetCodeHash WanCscPrecompileAddr w2) (wGetCode WanCscPrecompileAddr w2)
    (NewContract caller WanCscPrecompileAddr v gas)"
  have c: "CallerAddress c = ref_Address caller" "con_value c = v" "con_CodeAddr c = Some WanCscPrecompileAddr"
    by (simp_all add: c_def SetCallCode_def NewContract_def)
  have "w' = w \<and> (err = None \<longrightarrow> ev_NoRecursion ev) \<or> settle w (vm_run interp ev c input w2) = (ret, g, err, w')"
    using assms(1,2) by (auto simp: Call_def Let_def w1_def w2_def c_def precompile_addrs split: if_splits)
  then show thesis
  proof
    assume "settle w (vm_run interp ev c input w2) = (ret, g, err, w')"
    moreover have "vm_run interp ev c input w2 =
        (case csc_Run env (ev_ctx ev) input c w2 of (Inl e, w3) \<Rightarrow> ([], Some e, c, w3) | (Inr r, w3) \<Rightarrow> (r, None, c, w3))"
      by (simp add: vm_run_def c(3) assms(1) RunPrecompiledContract_def UseGas_def PosStaking_def csc_RequiredGas_def)
    ultimately consider "w' = w" "err \<noteq> None" | "csc_Run env (ev_ctx ev) input c w2 = (Inr ret, w')" "err = None"
      using assms(3) by (auto simp: settle_def split: prod.splits sum.splits go_error.splits if_splits)
    then show thesis using that c w1_def w2_def by cases (metis (full_types))+
  qed (use that in blast)
qed

lemma Call_csc_solvent:
  assumes "ev_precompiles ev WanCscPrecompileAddr = Some (PosStaking env)" and "ref_Address caller \<noteq> WanCscPrecompileAddr"
    and "0 \<le> v" and "Call interp ev caller WanCscPrecompileAddr input gas v w = (ret, g, err, w')" and "\<And>m. err \<noteq> Some (Panic m)"
    and "csc_inv w" and "solvent w"
  shows "csc_inv w' \<and> solvent w'"
proof (rule Call_csc_cases [OF assms(1,4,5)])
  fix c w1 w2
  assume h: "w1 = w \<or> w1 = wCreateAccount (ctx_db (ev_ctx ev)) WanCscPrecompileAddr w"
    "w2 = Transfer (ctx_db (ev_ctx ev)) (ref_Address caller) WanCscPrecompileAddr v w1"
    "CallerAddress c = ref_Address caller" "con_value c = v" "csc_Run env (ev_ctx ev) input c w2 = (Inr ret, w')"
  have st: "stakers w2 = stakers w" using h(1,2) by (auto simp: stakers_wCreateAccount)
  have b: "wGetBalance WanCscPrecompileAddr w2 = wGetBalance WanCscPrecompileAddr w + v"
    using h(1,2) assms(2,3) by (auto simp: wGetBalance_Transfer)
  have i: "csc_inv w2" using assms(6) st by (simp add: csc_inv_def)
  have v: "0 \<le> con_value c" using assms(3) h(4) by simp
  note step = csc_Run_step [OF i v h(5)]
  have "csc_inv w'" by (rule spec_step_inv [OF i v step])
  moreover have "total_stake w' \<le> total_stake w + v"
    using spec_step_total [OF i v step] h(4) assms(3) st by (simp add: total_stake_def split: if_splits)
  moreover have "wGetBalance WanCscPrecompileAddr w' = wGetBalance WanCscPrecompileAddr w + v"
    using step b by (auto simp: spec_step_def)
  ultimately show ?thesis using assms(7) by (simp add: solvent_def)
qed (use assms in simp)

end
