(* ===== verification/Staking_Props.thy ===== *)
theory Staking_Props
  imports Staking_Spec
begin

text \<open>
  Properties of the staking contract: that \<^verbatim>\<open>Run\<close> refines the specification, the solvency of the contract
  over every sequence of calls, the rights of stakers, and how the other call variants break the accounts.
\<close>

section \<open>Other call variants\<close>

lemma settle_csc:
  assumes "con_CodeAddr c = Some WanCscPrecompileAddr" and "ev_precompiles ev WanCscPrecompileAddr = Some (PosStaking env)"
    and "settle w (vm_run interp ev c input w) = (ret, g, None, w')"
  shows "csc_Run env (ev_ctx ev) input c w = (Inr ret, w')"
  using assms
  by (auto simp: vm_run_def RunPrecompiledContract_def UseGas_def PosStaking_def csc_RequiredGas_def settle_def
      split: prod.splits sum.splits go_error.splits if_splits)

text \<open>The calls that run the contract in the context of the caller.\<close>

lemma CallCode_csc:
  assumes "ev_precompiles ev WanCscPrecompileAddr = Some (PosStaking env)" and "\<not> ev_NoRecursion ev"
    and "CallCode interp ev caller WanCscPrecompileAddr input gas v w = (ret, g, None, w')"
  shows "\<exists>c. con_value c = v \<and> CallerAddress c = ref_Address caller \<and> csc_Run env (ev_ctx ev) input c w = (Inr ret, w')"
proof -
  let ?c = "SetCallCode WanCscPrecompileAddr (wGetCodeHash WanCscPrecompileAddr w) (wGetCode WanCscPrecompileAddr w)
    (NewContract caller (ref_Address caller) v gas)"
  have "settle w (vm_run interp ev ?c input w) = (ret, g, None, w')"
    using assms(2,3) by (auto simp: CallCode_def Let_def split: if_splits)
  from settle_csc [OF _ assms(1) this] show ?thesis
    by (intro exI [of _ ?c]) (simp add: SetCallCode_def NewContract_def)
qed

lemma DelegateCall_csc:
  assumes "ev_precompiles ev WanCscPrecompileAddr = Some (PosStaking env)" and "\<not> ev_NoRecursion ev"
    and "DelegateCall interp ev (ContractRef p) WanCscPrecompileAddr input gas w = (ret, g, None, w')"
  shows "\<exists>c. con_value c = con_value p \<and> csc_Run env (ev_ctx ev) input c w = (Inr ret, w')"
proof -
  let ?c = "SetCallCode WanCscPrecompileAddr (wGetCodeHash WanCscPrecompileAddr w) (wGetCode WanCscPrecompileAddr w)
    ((NewContract (ContractRef p) (con_self p) 0 gas)\<lparr>con_DelegateCall := True, CallerAddress := CallerAddress p,
       con_value := con_value p\<rparr>)"
  have "settle w (vm_run interp ev ?c input w) = (ret, g, None, w')"
    using assms(2,3) by (auto simp: DelegateCall_def AsDelegate_def Let_def split: if_splits)
  from settle_csc [OF _ assms(1) this] show ?thesis
    by (intro exI [of _ ?c]) (simp add: SetCallCode_def NewContract_def)
qed

section \<open>An example\<close>

text \<open>A curve whose points are their coordinates, and a chain past the Apollo epoch.\<close>

definition toy_env :: cscEnv where
  "toy_env = \<lparr>elliptic_Unmarshal =
       (\<lambda>b. if hd b = 4 then Some (big_SetBytes (take 32 (tl b)), big_SetBytes (drop 33 b)) else None),
     bn256_Unmarshal_ok = (\<lambda>b. 64 \<le> length b), FirstEpochId = 18000, VenusEpochId = 18369, IsNoStaking = False,
     NowUnix = 0\<rparr>"

text \<open>A hash with different method identifiers.\<close>

definition csc_db :: database where
  "csc_db = toy_db\<lparr>Keccak256 := \<lambda>b. let t = drop (length b - 20) b; h = of_nat (length b) # take 1 b in
     BytesToHash (h @ replicate (32 - length h - length t) 0 @ t)\<rparr>"

definition csc_ctx :: vmctx where
  "csc_ctx = (toy_ctx 1600000000)\<lparr>ctx_db := csc_db\<rparr>"

definition toy_call :: "string \<Rightarrow> abi_type list \<Rightarrow> abi_value list \<Rightarrow> bytes" where
  "toy_call sig ts vs = method_id csc_db sig @ (case Pack ts vs of Inl _ \<Rightarrow> [] | Inr b \<Rightarrow> b)"

definition csc_evm :: evm where
  "csc_evm = toy_evm csc_ctx (\<lambda>a. if a = WanCscPrecompileAddr then Some (PosStaking toy_env) else None)"

lemma csc_evm_simps: "ev_precompiles csc_evm WanCscPrecompileAddr = Some (PosStaking toy_env)" "\<not> ev_NoRecursion csc_evm"
  by (simp_all add: csc_evm_def toy_evm_def)

text \<open>A state with validator 9.\<close>

definition toy_staker :: StakerInfo where
  "toy_staker = \<lparr>si_Address = 9, si_PubSec256 = 4 # replicate 63 0 @ [9], si_PubBn256 = replicate 64 1, si_Amount = 50000 * ether,
     si_StakeAmount = 50000 * ether * 1002, si_LockEpochs = 10, si_NextLockEpochs = 10, si_From = 1, si_StakingEpoch = 18515,
     si_FeeRate = 500, si_Clients = [], si_Partners = []\<rparr>"

definition toy_fee :: UpdateFeeRate where
  "toy_fee = \<lparr>uf_ValidatorAddr = 9, uf_MaxFeeRate = 700, uf_FeeRate = 500, uf_ChangedEpoch = 18000\<rparr>"

definition staked :: world where
  "staked = wSetStateByteArray csc_db StakersFeeAddr (GetStakeInKeyHash 9) (rlp_enc (feeRate_val toy_fee))
     (wSetStateByteArray csc_db StakersInfoAddr (GetStakeInKeyHash 9) (rlp_enc (staker_val toy_staker))
       (toy_world [1 \<mapsto> 80000 * ether, WanCscPrecompileAddr \<mapsto> 50000 * ether]))"

lemma toy_staker_ok: "staker_ok toy_staker"
  by (simp add: toy_staker_def staker_ok_def staker_total_def lock_ok_def ether_def minStakeholderStake_def
      maxTotalStake_def MaxTimeDelegate_def maxPartners_def)

lemma toy_staker_simps [simp]:
  "si_Address toy_staker = 9" "si_Amount toy_staker = 50000 * ether" "si_From toy_staker = 1" "si_FeeRate toy_staker = 500"
  "si_Clients toy_staker = []" "si_Partners toy_staker = []" "si_NextLockEpochs toy_staker = 10"
  "si_StakingEpoch toy_staker = 18515" "si_LockEpochs toy_staker = 10"
  by (simp_all add: toy_staker_def)

lemmas csc_limits = noDelegateFeeRate_def MinValidatorStake_def ether_def maxTotalStake_def MaxTimeDelegate_def
  minDelegatorStake_def minStakeholderStake_def maxPartners_def

lemma staked_stakers: "stakers staked = [9 \<mapsto> toy_staker]"
proof -
  have e: "stakers (toy_world m) = Map.empty" for m
    by (simp add: fun_eq_iff stakers_eq staker_of_def toy_world_def wGetStateByteArray_def split: option.split)
  show ?thesis
    using stakers_set_staker [OF toy_staker_ok, where db = csc_db and w = "toy_world [1 \<mapsto> 80000 * ether, WanCscPrecompileAddr \<mapsto> 50000 * ether]"]
    by (simp add: staked_def toy_staker_def e)
qed

lemma staked_fees: "fee_records staked 9 = Some toy_fee"
  by (simp add: staked_def fees_set_fee)

lemma staked_balance: "wGetBalance WanCscPrecompileAddr staked = 50000 * ether"
  by (simp add: staked_def) (simp add: toy_world_def wGetBalance_def)

lemma staked_total: "total_stake staked = 50000 * ether"
  using sum_fun_upd [of total_of Map.empty 9 "Some toy_staker"]
  by (simp add: total_stake_def staked_stakers total_of_def staker_total_def)

lemma staked_ok: "csc_inv staked" "solvent staked"
  by (simp_all add: csc_inv_def staked_stakers kept_def toy_staker_ok solvent_def staked_balance staked_total)

definition toy_caller :: "address \<Rightarrow> int \<Rightarrow> contract" where
  "toy_caller a v = NewContract (AccountRef a) WanCscPrecompileAddr v 0"

lemma toy_caller_simps [simp]: "con_value (toy_caller a v) = v" "CallerAddress (toy_caller a v) = a"
  by (simp_all add: toy_caller_def NewContract_def)

definition toy_delegate :: bytes where
  "toy_delegate = toy_call delegateIn_sig [AddressTy] [VAddress 9]"

definition toy_update :: bytes where
  "toy_update = toy_call stakeUpdate_sig [AddressTy, UintTy 256] [VAddress 9, VInt KPtr 20]"

definition toy_feeUpdate :: bytes where
  "toy_feeUpdate = toy_call stakeUpdateFeeRate_sig [AddressTy, UintTy 256] [VAddress 9, VInt KPtr 600]"

lemma csc_ids:
  "method_id csc_db stakeRegister_sig = [50, 115, 0, 0]" "method_id csc_db stakeIn_sig = [36, 115, 0, 0]"
  "method_id csc_db stakeUpdate_sig = [28, 115, 0, 0]" "method_id csc_db stakeAppend_sig = [20, 115, 0, 0]"
  "method_id csc_db partnerIn_sig = [23, 112, 0, 0]" "method_id csc_db delegateIn_sig = [19, 100, 0, 0]"
  "method_id csc_db delegateOut_sig = [20, 100, 0, 0]" "method_id csc_db stakeUpdateFeeRate_sig = [35, 115, 0, 0]"
  by code_simp+

lemma toy_inputs:
  "take 4 toy_delegate = [19, 100, 0, 0]" "length toy_delegate = 36" "delegateInParseAndValid (drop 4 toy_delegate) = Inr 9"
  "take 4 toy_update = [28, 115, 0, 0]" "length toy_update = 68"
  "stakeUpdateParseAndValid (drop 4 toy_update) = Inr \<lparr>sup_Addr = 9, sup_LockEpochs = 20\<rparr>"
  "take 4 toy_feeUpdate = [35, 115, 0, 0]" "length toy_feeUpdate = 68"
  "updateFeeRateParseAndValid (drop 4 toy_feeUpdate) = Inr \<lparr>ufp_Addr = 9, ufp_FeeRate = 600\<rparr>"
  by code_simp+

lemma csc_ctx_db [simp]: "ctx_db csc_ctx = csc_db"
  by (simp add: csc_ctx_def)

lemma csc_epoch: "epoch_now csc_ctx = 18518"
  by code_simp

lemma toy_Run:
  "csc_Run env csc_ctx toy_delegate c = DelegateIn (drop 4 toy_delegate) c csc_ctx"
  "csc_Run env csc_ctx toy_update c = StakeUpdate (drop 4 toy_update) c csc_ctx"
  "csc_Run env csc_ctx toy_feeUpdate c = StakeUpdateFeeRate (drop 4 toy_feeUpdate) c csc_ctx"
  by (simp_all add: csc_Run_def csc_ids toy_inputs)

lemma staked_read: "getStakeInfo 9 staked = (Inr toy_staker, staked)"
  by (simp add: getStakeInfo_stakers staked_stakers)

lemma toy_delegate_runs:
  assumes "stakers w 9 = Some toy_staker" and "con_value c = 100 * ether"
  shows "\<exists>w'. csc_Run env csc_ctx toy_delegate c w = (Inr [], w')"
proof -
  have "staker_ok (toy_staker\<lparr>si_Clients := [\<lparr>ci_Address = CallerAddress c, ci_Amount = 100 * ether,
      ci_StakeAmount = 100 * ether * sint (CalLocktimeWeight PSMinEpochNum), ci_QuitEpoch = 0\<rparr>]\<rparr>)"
    using toy_staker_ok
    by (simp add: toy_staker_def staker_ok_def staker_total_def client_ok_def csc_limits client_weight)
  note save = saveStakeInfo_eq [OF this]
  have "getStakeInfo 9 w = (Inr toy_staker, w)" using assms(1) by (simp add: getStakeInfo_stakers)
  then show ?thesis using assms(2) save
    by (simp add: toy_Run DelegateIn_def toy_inputs wop_defs Let_def csc_limits delegateInLog_def precompiledScAddLog_def
        big_Uint64_def)
qed

lemma toy_update_runs:
  assumes "stakers w 9 = Some toy_staker" and "CallerAddress c = 1"
  shows "\<exists>w'. csc_Run env csc_ctx toy_update c w = (Inr [], w') \<and> stakers w' 9 = Some (toy_staker\<lparr>si_NextLockEpochs := 20\<rparr>)"
proof -
  let ?s = "toy_staker\<lparr>si_NextLockEpochs := 20\<rparr>"
  have ok: "staker_ok ?s" using toy_staker_ok by (simp add: toy_staker_def staker_ok_def staker_total_def lock_ok_def)
  have "getStakeInfo 9 w = (Inr toy_staker, w)" using assms(1) by (simp add: getStakeInfo_stakers)
  then show ?thesis using assms(2) saveStakeInfo_eq [OF ok] stakers_set_staker [OF ok]
    by (simp add: toy_Run StakeUpdate_def toy_inputs wop_defs Let_def big_Uint64_def stakeUpdateLog_def precompiledScAddLog_def
        csc_epoch UpdateDelay_def)
qed

lemma toy_fee_runs: "\<exists>w'. StakeUpdateFeeRate (drop 4 toy_feeUpdate) (toy_caller 1 5) csc_ctx staked = (Inr [], w')"
proof -
  have "staker_ok (toy_staker\<lparr>si_FeeRate := 600\<rparr>)"
    using toy_staker_ok by (simp add: toy_staker_def staker_ok_def staker_total_def)
  note save = saveStakeInfo_eq [OF this]
  have f: "getStakeFeeRate 9 staked = (Inr (Some toy_fee), staked)" using staked_fees
    by (auto simp: fee_records_def getStakeFeeRate_def GetInfo_def wop_defs split: sum.splits if_splits)
  show ?thesis
    by (simp add: StakeUpdateFeeRate_def csc_epoch toy_inputs wop_defs Let_def staked_read csc_limits PSMaxFeeRate_def PSFeeRateStep_def
        big_Uint64_def f toy_fee_def save saveStakeFeeRate_eq stakeUpdateFeeRateLog_def precompiledScAddLog_def)
qed

text \<open>Calls from account 1.\<close>

lemma csc_Call_runs:
  assumes "\<And>c w. CallerAddress c = 1 \<Longrightarrow> con_value c = v \<Longrightarrow> stakers w 9 = Some toy_staker \<Longrightarrow>
      \<exists>w'. csc_Run toy_env csc_ctx input c w = (Inr [], w')" and "v \<le> 80000 * ether"
  shows "\<exists>g w'. Call interp csc_evm (AccountRef 1) WanCscPrecompileAddr input 9 v staked = ([], g, None, w')"
    "\<exists>g w'. CallCode interp csc_evm (AccountRef 1) WanCscPrecompileAddr input 9 v staked = ([], g, None, w')"
proof -
  have b: "wGetBalance 1 staked = 80000 * ether" by (simp add: staked_def) (simp add: toy_world_def wGetBalance_def precompile_addrs)
  have x: "wExist WanCscPrecompileAddr staked"
    by (simp add: staked_def wExist_def toy_world_def wSetStateByteArray_def wUpd_def wEnsure_def)
  have a: "WanCscPrecompileAddr \<noteq> wanCoinPrecompileAddr" "WanCscPrecompileAddr \<noteq> wanStampPrecompileAddr"
    by (simp_all add: precompile_addrs)
  note frame = vm_run_def RunPrecompiledContract_def UseGas_def PosStaking_def csc_RequiredGas_def settle_def
    csc_evm_def toy_evm_def CanTransfer_def CallCreateDepth_def Let_def SetCallCode_def NewContract_def
  let ?c = "\<lambda>self w. SetCallCode WanCscPrecompileAddr (wGetCodeHash WanCscPrecompileAddr w) (wGetCode WanCscPrecompileAddr w)
    (NewContract (AccountRef 1) self v 9)"
  let ?w = "Transfer csc_db 1 WanCscPrecompileAddr v staked"
  have c: "CallerAddress (?c self w) = 1" "con_value (?c self w) = v" for self w by (simp_all add: SetCallCode_def NewContract_def)
  have run: "\<exists>w'. csc_Run toy_env csc_ctx input (?c self w) w = (Inr [], w')" if "stakers w 9 = Some toy_staker" for self w
    by (rule assms(1) [OF c that])
  obtain w1 w2 where "csc_Run toy_env csc_ctx input (?c WanCscPrecompileAddr ?w) ?w = (Inr [], w1)"
      and "csc_Run toy_env csc_ctx input (?c 1 staked) staked = (Inr [], w2)"
    using run [of ?w WanCscPrecompileAddr] run [of staked 1] by (auto simp: staked_stakers)
  then show "\<exists>g w'. Call interp csc_evm (AccountRef 1) WanCscPrecompileAddr input 9 v staked = ([], g, None, w')"
    "\<exists>g w'. CallCode interp csc_evm (AccountRef 1) WanCscPrecompileAddr input 9 v staked = ([], g, None, w')"
    using assms(2) b x csc_evm_simps(1) by (simp_all add: Call_def CallCode_def a frame)
qed

section \<open>Properties\<close>

text \<open>C20. The staking contract refines its specification: whenever \<^verbatim>\<open>Run\<close> succeeds on well-formed records, it
  performs exactly one transition of \<open>csc_step\<close> on one validator, leaves all other validators and all
  balances, and the records stay well-formed; it records the coins exactly for the payable methods.\<close>

theorem csc_Run_refines:
  assumes "csc_inv w" and "0 \<le> con_value c" and "csc_Run env ctx input c w = (Inr r, w')"
  shows "spec_step (epoch_now ctx) (CallerAddress c) (con_value c) (csc_payable (ctx_db ctx) input) w w' \<and> csc_inv w' \<and>
    total_stake w' = total_stake w + (if csc_payable (ctx_db ctx) input then con_value c else 0)"
  using csc_Run_step [OF assms] spec_step_inv [OF assms(1,2)] spec_step_total [OF assms(1,2)] by blast

theorem csc_Run_refines_witness:
  "\<exists>w'. spec_step (epoch_now csc_ctx) 2 (100 * ether) True staked w' \<and> csc_inv w' \<and> total_stake w' = total_stake staked + 100 * ether"
proof -
  obtain w' where "csc_Run toy_env csc_ctx toy_delegate (toy_caller 2 (100 * ether)) staked = (Inr [], w')"
    using toy_delegate_runs [of staked "toy_caller 2 (100 * ether)"] by (auto simp: staked_stakers)
  moreover have "csc_payable (ctx_db csc_ctx) toy_delegate" by (simp add: csc_payable_def csc_ids toy_inputs)
  ultimately show ?thesis
    using csc_Run_refines [OF staked_ok(1), of "toy_caller 2 (100 * ether)" toy_env csc_ctx toy_delegate "[]" w']
    by (auto simp: ether_def)
qed

text \<open>Sequences of calls of the contract by others, and of transfers from others.\<close>

inductive csc_reach :: "cscEnv \<Rightarrow> world \<Rightarrow> world \<Rightarrow> bool" for env :: cscEnv and w0 :: world where
  start: "csc_reach env w0 w0"
| call: "csc_reach env w0 w \<Longrightarrow> ev_precompiles ev WanCscPrecompileAddr = Some (PosStaking env) \<Longrightarrow>
    ref_Address caller \<noteq> WanCscPrecompileAddr \<Longrightarrow> 0 \<le> v \<Longrightarrow>
    Call interp ev caller WanCscPrecompileAddr input gas v w = (ret, g, err, w') \<Longrightarrow> \<forall>m. err \<noteq> Some (Panic m) \<Longrightarrow>
    csc_reach env w0 w'"
| transfer: "csc_reach env w0 w \<Longrightarrow> x \<noteq> WanCscPrecompileAddr \<Longrightarrow> 0 \<le> v \<Longrightarrow> csc_reach env w0 (Transfer db x y v w)"

text \<open>C19. Solvency: after every sequence of ordinary calls of the contract (any input, any coins, successful or not)
  and of transfers by other accounts, the records are well-formed and the balance of the contract covers the sum of
  all stakes recorded for validators, delegators and partners.\<close>

theorem csc_solvent:
  assumes "csc_reach env w0 w" and "csc_inv w0" and "solvent w0"
  shows "csc_inv w \<and> solvent w"
  using assms
proof (induction rule: csc_reach.induct)
  case (call w ev caller v interp input gas ret g err w')
  then show ?case using Call_csc_solvent [OF call(2,3,4,5)] by blast
next
  case (transfer w x v db y)
  then show ?case
    by (auto simp: csc_inv_def solvent_def total_stake_def wGetBalance_Transfer)
qed simp

theorem csc_solvent_witness:
  "\<exists>g w'. Call null_interp csc_evm (AccountRef 1) WanCscPrecompileAddr toy_delegate 9 (100 * ether) staked = ([], g, None, w') \<and>
     csc_inv w' \<and> solvent w'"
proof -
  obtain g w' where c: "Call null_interp csc_evm (AccountRef 1) WanCscPrecompileAddr toy_delegate 9 (100 * ether) staked =
      ([], g, None, w')"
    using csc_Call_runs(1) [of "100 * ether" toy_delegate null_interp] toy_delegate_runs by (auto simp: ether_def)
  have "csc_reach toy_env staked w'"
    by (rule csc_reach.call [OF csc_reach.start csc_evm_simps(1) _ _ c]) (simp_all add: precompile_addrs ether_def)
  then show ?thesis using csc_solvent [OF _ staked_ok] c by blast
qed

text \<open>C25. The call variants that run the contract in the context of the caller break the accounts: a successful
  \<^verbatim>\<open>CALLCODE\<close>, or \<^verbatim>\<open>DELEGATECALL\<close> from a frame that was given coins, of a payable method records the value as stake
  although no coins move: all balances stay as they were.\<close>

theorem CallCode_records_unbacked_stake:
  assumes "ev_precompiles ev WanCscPrecompileAddr = Some (PosStaking env)" and "\<not> ev_NoRecursion ev"
    and "csc_inv w" and "0 \<le> v" and "csc_payable (ctx_db (ev_ctx ev)) input"
    and "CallCode interp ev caller WanCscPrecompileAddr input gas v w = (ret, g, None, w') \<or>
      con_value p = v \<and> DelegateCall interp ev (ContractRef p) WanCscPrecompileAddr input gas w = (ret, g, None, w')"
  shows "total_stake w' = total_stake w + v \<and> (\<forall>b. wGetBalance b w' = wGetBalance b w)"
proof -
  obtain c where c: "con_value c = v" "csc_Run env (ev_ctx ev) input c w = (Inr ret, w')"
    using assms(6) CallCode_csc [OF assms(1,2), of interp caller input gas v w ret g w']
      DelegateCall_csc [OF assms(1,2), of interp p input gas w ret g w'] by blast
  have v: "0 \<le> con_value c" using c(1) assms(4) by simp
  note step = csc_Run_step [OF assms(3) v c(2)]
  from spec_step_total [OF assms(3) v step] step assms(5) c(1) show ?thesis by (auto simp: spec_step_def)
qed

theorem CallCode_records_unbacked_stake_witness:
  "\<exists>g w'. CallCode null_interp csc_evm (AccountRef 1) WanCscPrecompileAddr toy_delegate 9 (100 * ether) staked = ([], g, None, w') \<and>
     solvent staked \<and> total_stake w' = 50100 * ether \<and> wGetBalance WanCscPrecompileAddr w' = 50000 * ether \<and> \<not> solvent w'"
proof -
  obtain g w' where c: "CallCode null_interp csc_evm (AccountRef 1) WanCscPrecompileAddr toy_delegate 9 (100 * ether) staked =
      ([], g, None, w')"
    using csc_Call_runs(2) [of "100 * ether" toy_delegate null_interp] toy_delegate_runs by (auto simp: ether_def)
  have "csc_payable (ctx_db (ev_ctx csc_evm)) toy_delegate"
    by (simp add: csc_payable_def csc_ids toy_inputs csc_evm_def toy_evm_def)
  from CallCode_records_unbacked_stake [OF csc_evm_simps staked_ok(1) _ this disjI1 [OF c]]
  have "total_stake w' = 50100 * ether" "wGetBalance WanCscPrecompileAddr w' = 50000 * ether"
    by (simp_all add: staked_total staked_balance ether_def)
  then show ?thesis using c staked_ok by (auto simp: solvent_def ether_def)
qed

text \<open>What a transition of the contract may change of the record of a validator for the others.\<close>

definition rights_kept :: "address \<Rightarrow> StakerInfo \<Rightarrow> StakerInfo \<Rightarrow> bool" where
  "rights_kept caller s s' =
     (si_From s' = si_From s \<and> si_PubSec256 s' = si_PubSec256 s \<and> si_PubBn256 s' = si_PubBn256 s \<and>
      si_LockEpochs s' = si_LockEpochs s \<and> si_Amount s \<le> si_Amount s' \<and>
      (caller \<noteq> si_From s \<longrightarrow> si_Amount s' = si_Amount s \<and> si_StakeAmount s' = si_StakeAmount s \<and>
         si_NextLockEpochs s' = si_NextLockEpochs s \<and> si_FeeRate s' = si_FeeRate s) \<and>
      (\<forall>c\<in>set (si_Clients s). if ci_Address c = caller
         then \<exists>c'\<in>set (si_Clients s'). ci_Address c' = caller \<and> ci_Amount c \<le> ci_Amount c' else c \<in> set (si_Clients s')) \<and>
      (\<forall>p\<in>set (si_Partners s). if pi_Address p = caller
         then \<exists>p'\<in>set (si_Partners s'). pi_Address p' = caller \<and> pi_Amount p \<le> pi_Amount p' else p \<in> set (si_Partners s')))"

lemma map_entries:
  fixes f :: "'a \<Rightarrow> int"
  assumes "\<And>p. key p = a \<Longrightarrow> key (g p) = a \<and> f p \<le> f (g p)" and "\<And>p. key p \<noteq> a \<Longrightarrow> g p = p"
  shows "\<forall>p\<in>set ps. if key p = a then \<exists>p'\<in>set (map g ps). key p' = a \<and> f p \<le> f p' else p \<in> set (map g ps)"
proof
  fix p assume "p \<in> set ps"
  then have "g p \<in> set (map g ps)" by simp
  then show "if key p = a then \<exists>p'\<in>set (map g ps). key p' = a \<and> f p \<le> f p' else p \<in> set (map g ps)"
    using assms(1) [of p] assms(2) [of p] by (auto split: if_splits simp del: set_map)
qed

lemma csc_step_rights:
  assumes "csc_step e caller v paid (Some s) s'" and "0 \<le> v"
  shows "rights_kept caller s s'"
  using assms(1)
proof cases
  case (partner_more rle wt rn)
  have "rights_kept caller s (s\<lparr>si_Partners := map g (si_Partners s)\<rparr>)"
    if "\<And>p. pi_Address p = caller \<Longrightarrow> pi_Address (g p) = caller \<and> pi_Amount p \<le> pi_Amount (g p)"
      and "\<And>p. pi_Address p \<noteq> caller \<Longrightarrow> g p = p" for g
    using map_entries [where key = pi_Address and g = g and f = pi_Amount, OF that] by (auto simp: rights_kept_def simp del: set_map)
  then show ?thesis unfolding partner_more(2) using assms(2) by simp
next
  case delegate_more
  have "rights_kept caller s (s\<lparr>si_Clients := map g (si_Clients s)\<rparr>)"
    if "\<And>c. ci_Address c = caller \<Longrightarrow> ci_Address (g c) = caller \<and> ci_Amount c \<le> ci_Amount (g c)"
      and "\<And>c. ci_Address c \<noteq> caller \<Longrightarrow> g c = c" for g
    using map_entries [where key = ci_Address and g = g and f = ci_Amount, OF that] by (auto simp: rights_kept_def simp del: set_map)
  then show ?thesis unfolding delegate_more(2) using assms(2) by (simp add: add_delegation_def)
next
  case (delegate_out pre c post)
  then show ?thesis by (auto simp: rights_kept_def)
qed (use assms(2) in \<open>auto simp: rights_kept_def\<close>)

text \<open>C21. No call of the contract takes stake from anybody: every validator stays registered with its keys, owner
  and term, its amount never shrinks, only its owner changes its amount, fee rate and next term, and the
  entries of delegators and partners other than the caller stay as they are.\<close>

theorem csc_keeps_rights:
  assumes "csc_inv w" and "0 \<le> con_value c" and "csc_Run env ctx input c w = (Inr r, w')" and "stakers w a = Some s"
  shows "\<exists>s'. stakers w' a = Some s' \<and> rights_kept (CallerAddress c) s s'"
proof -
  obtain s' where s': "csc_step (epoch_now ctx) (CallerAddress c) (con_value c) (csc_payable (ctx_db ctx) input)
      (stakers w (si_Address s')) s'" "stakers w' = (stakers w)(si_Address s' \<mapsto> s')"
    using csc_Run_step [OF assms(1-3)] by (auto simp: spec_step_def)
  have "rights_kept (CallerAddress c) s s" by (simp add: rights_kept_def) auto
  then show ?thesis using s' assms(2,4) csc_step_rights by (cases "a = si_Address s'") auto
qed

theorem csc_keeps_rights_witness:
  "\<exists>w' s'. csc_Run toy_env csc_ctx toy_delegate (toy_caller 2 (100 * ether)) staked = (Inr [], w') \<and>
     stakers w' 9 = Some s' \<and> rights_kept 2 toy_staker s'"
proof -
  obtain w' where "csc_Run toy_env csc_ctx toy_delegate (toy_caller 2 (100 * ether)) staked = (Inr [], w')"
    using toy_delegate_runs [of staked "toy_caller 2 (100 * ether)"] by (auto simp: staked_stakers)
  with csc_keeps_rights [OF staked_ok(1) _ this, of 9 toy_staker] show ?thesis
    by (simp add: staked_stakers ether_def)
qed

text \<open>C22. Fee rates: an update succeeds only for the owner, at most once per epoch (the record of the update
  carries the epoch, and it differs from that of the previous record), to a rate below 10000 that is at most 100 points above
  the previous one and at most the maximum fixed at the first record, which the update does not change.\<close>

theorem fee_update_rules:
  assumes "csc_inv w" and "StakeUpdateFeeRate payload c ctx w = (Inr r, w')"
  shows "\<exists>a s s' u'. stakers w a = Some s \<and> stakers w' a = Some s' \<and> fee_records w' a = Some u' \<and>
     CallerAddress c = si_From s \<and> si_FeeRate s' = uf_FeeRate u' \<and> si_FeeRate s' < 10000 \<and> si_FeeRate s' \<le> si_FeeRate s + 100 \<and>
     uf_FeeRate u' \<le> uf_MaxFeeRate u' \<and> uf_ChangedEpoch u' = epoch_now ctx \<and>
     (case fee_records w a of None \<Rightarrow> uf_MaxFeeRate u' = si_FeeRate s
      | Some u \<Rightarrow> uf_ChangedEpoch u \<noteq> epoch_now ctx \<and> uf_MaxFeeRate u' = uf_MaxFeeRate u)"
proof (rule StakeUpdateFeeRate_Inr [OF assms(2)])
  fix info s fee old u w1 w2
  assume s: "stakers w (ufp_Addr info) = Some s" and h: "CallerAddress c = si_From s" "fee \<le> 10000" "fee \<noteq> 10000"
      "fee \<le> si_FeeRate s + 100" "uf_FeeRate u = fee" "uf_ChangedEpoch u = epoch_now ctx"
    and old: "fst (getStakeFeeRate (si_Address s) w) = Inr old" "\<And>x. old = Some x \<Longrightarrow> uf_ChangedEpoch x \<noteq> epoch_now ctx"
      "\<And>x. old = Some x \<Longrightarrow> fee \<le> uf_MaxFeeRate x \<and> u = x\<lparr>uf_FeeRate := fee, uf_ChangedEpoch := epoch_now ctx\<rparr>"
      "old = None \<Longrightarrow> fee \<le> si_FeeRate s \<and> uf_MaxFeeRate u = si_FeeRate s"
    and w1: "saveStakeInfo (ctx_db ctx) (s\<lparr>si_FeeRate := fee\<rparr>) w = (Inr (), w1)"
    and w2: "saveStakeFeeRate (ctx_db ctx) u (si_Address s) w1 = (Inr (), w2)" and w': "stakeUpdateFeeRateLog c ctx u w2 = (Inr (), w')"
  have k: "kept (ufp_Addr info) s" using assms(1) s by (auto simp: csc_inv_def)
  let ?s = "s\<lparr>si_FeeRate := fee\<rparr>"
  have k': "kept (ufp_Addr info) ?s" using k h(2) by (simp add: kept_def staker_ok_def staker_total_def)
  have t1: "ufp_Addr info \<noteq> 0" "stakers w1 = (stakers w)(ufp_Addr info \<mapsto> ?s)"
    using staker_table.save_cases [OF k' w1] by auto
  have t2: "fee_records w2 = (fee_records w1)(ufp_Addr info \<mapsto> u)" "stakers w2 = stakers w1"
    using w2 t1(1) k fees_set_fee by (auto simp: saveStakeFeeRate_eq kept_def)
  note q = quietD [OF quiet_logs(7) w']
  have "fee_records w (ufp_Addr info) = old" using old(1) k by (simp add: fee_records_def kept_def)
  moreover have "stakers w' (ufp_Addr info) = Some ?s" "fee_records w' (ufp_Addr info) = Some u"
    unfolding q(1,2) t2 t1(2) by simp_all
  moreover have "fee < 10000" using h(2,3) by simp
  moreover have "fee \<le> uf_MaxFeeRate u" and "case old of None \<Rightarrow> uf_MaxFeeRate u = si_FeeRate s
      | Some u1 \<Rightarrow> uf_ChangedEpoch u1 \<noteq> epoch_now ctx \<and> uf_MaxFeeRate u = uf_MaxFeeRate u1"
    using old(2-4) by (cases old; simp)+
  ultimately show ?thesis using s h(1,4-6)
    by (intro exI [of _ "ufp_Addr info"] exI [of _ s] exI [of _ ?s] exI [of _ u]) simp
qed

theorem fee_update_rules_witness:
  "\<exists>w' s' u'. StakeUpdateFeeRate (drop 4 toy_feeUpdate) (toy_caller 1 5) csc_ctx staked = (Inr [], w') \<and>
     stakers w' 9 = Some s' \<and> fee_records w' 9 = Some u' \<and> si_FeeRate s' \<le> 600 \<and> uf_MaxFeeRate u' = 700"
proof -
  obtain w' where "StakeUpdateFeeRate (drop 4 toy_feeUpdate) (toy_caller 1 5) csc_ctx staked = (Inr [], w')"
    using toy_fee_runs by blast
  with fee_update_rules [OF staked_ok(1) this] staked_fees show ?thesis
    by (auto simp: staked_stakers toy_fee_def split: if_splits)
qed


text \<open>C23. Saving a well-formed record of a validator and reading it gives the record, and changes no other record
  and no balance, whatever the hash function of the database.\<close>

theorem saveStakeInfo_getStakeInfo:
  assumes "staker_ok s" and "si_Address s \<noteq> 0"
  shows "\<exists>w'. saveStakeInfo db s w = (Inr (), w') \<and> getStakeInfo (si_Address s) w' = (Inr s, w') \<and>
    (\<forall>a. a \<noteq> si_Address s \<longrightarrow> stakers w' a = stakers w a) \<and> (\<forall>a. fee_records w' a = fee_records w a) \<and>
    (\<forall>b. wGetBalance b w' = wGetBalance b w)"
  using assms by (simp add: saveStakeInfo_eq getStakeInfo_stakers stakers_set_staker)

theorem saveStakeInfo_getStakeInfo_witness:
  "\<exists>w'. saveStakeInfo csc_db toy_staker staked = (Inr (), w') \<and> getStakeInfo 9 w' = (Inr toy_staker, w')"
  using saveStakeInfo_getStakeInfo [OF toy_staker_ok, of csc_db staked] by auto



text \<open>C26. Coins sent along with a method that is not payable (\<^verbatim>\<open>stakeUpdate\<close>, \<^verbatim>\<open>delegateOut\<close>,
  \<^verbatim>\<open>stakeUpdateFeeRate\<close>) are taken and recorded for nobody: a successful call raises the balance of the
  contract by the value and leaves the recorded stake.\<close>

theorem nonpayable_coins_kept:
  assumes "ev_precompiles ev WanCscPrecompileAddr = Some (PosStaking env)" and "ref_Address caller \<noteq> WanCscPrecompileAddr"
    and "0 \<le> v" and "csc_inv w" and "\<not> csc_payable (ctx_db (ev_ctx ev)) input"
    and "Call interp ev caller WanCscPrecompileAddr input gas v w = (ret, g, None, w')" and "\<not> ev_NoRecursion ev"
  shows "total_stake w' = total_stake w \<and>
    wGetBalance WanCscPrecompileAddr w' = wGetBalance WanCscPrecompileAddr w + v"
proof (rule Call_csc_cases [OF assms(1,6)])
  fix c w1 w2
  assume h: "w1 = w \<or> w1 = wCreateAccount (ctx_db (ev_ctx ev)) WanCscPrecompileAddr w"
    "w2 = Transfer (ctx_db (ev_ctx ev)) (ref_Address caller) WanCscPrecompileAddr v w1"
    "con_value c = v" "csc_Run env (ev_ctx ev) input c w2 = (Inr ret, w')"
  have st: "stakers w2 = stakers w" using h(1,2) by (auto simp: stakers_wCreateAccount)
  have b: "wGetBalance WanCscPrecompileAddr w2 = wGetBalance WanCscPrecompileAddr w + v"
    using h(1,2) assms(2,3) by (auto simp: wGetBalance_Transfer)
  have i: "csc_inv w2" "0 \<le> con_value c" using assms(3,4) st h(3) by (simp_all add: csc_inv_def)
  note step = csc_Run_step [OF i h(4)]
  have "total_stake w' = total_stake w2" using spec_step_total [OF i step] assms(5) by simp
  with st b step show ?thesis by (auto simp: total_stake_def spec_step_def)
qed (use assms in simp_all)


theorem nonpayable_coins_kept_witness:
  "\<exists>g w'. Call null_interp csc_evm (AccountRef 1) WanCscPrecompileAddr toy_update 9 5 staked = ([], g, None, w') \<and>
     total_stake w' = 50000 * ether \<and> wGetBalance WanCscPrecompileAddr w' = 50000 * ether + 5"
proof -
  obtain g w' where c: "Call null_interp csc_evm (AccountRef 1) WanCscPrecompileAddr toy_update 9 5 staked = ([], g, None, w')"
    using csc_Call_runs(1) [of 5 toy_update null_interp] toy_update_runs by (fastforce simp: ether_def)
  have "\<not> csc_payable (ctx_db (ev_ctx csc_evm)) toy_update"
    by (simp add: csc_payable_def csc_ids toy_inputs csc_evm_def toy_evm_def)
  moreover have "ref_Address (AccountRef 1) \<noteq> WanCscPrecompileAddr" by (simp add: precompile_addrs)
  ultimately show ?thesis
    using nonpayable_coins_kept [OF csc_evm_simps(1) _ _ staked_ok(1) _ c csc_evm_simps(2)] c
    by (auto simp: staked_balance staked_total)
qed


end
