(* ===== verification/Spec2Isabelle.thy ===== *)
theory Spec2Isabelle
  imports Rlp_Stream State_Props Pos_Util Abi Vm_Call Staking_Props
begin

text \<open>
  A verification library for the wanchain node: header to be completed.
\<close>

end
